theory Spec2Isabelle
  imports Complex_Main "HOL-Library.Product_Lexorder"
begin

section \<open>Common: Python exceptions as values\<close>

datatype py_error =
    AssertionError | KeyError | ValueError | ZeroDivisionError | IndexError | RuntimeError

section \<open>Tokenizer of experiments/tiny\_addition/run\_search.py\<close>

text \<open>
  \<^verbatim>\<open>DIGITS = "0123456789"\<close>,
  \<^verbatim>\<open>TOKENS = ["<bos>", "+", "=", "<eos>"] + list(DIGITS)\<close>,
  \<^verbatim>\<open>STOI = {t: i for i, t in enumerate(TOKENS)}\<close>,
  \<^verbatim>\<open>ITOS = {i: t for t, i in STOI.items()}\<close>.
  A token is a Python string; a dict comprehension lets a later entry override an earlier
  one, which \<open>dict_of\<close> reproduces. \<open>TOKENS\<close> has no repeated entry, so the items of
  \<open>STOI\<close> are the enumeration of \<open>TOKENS\<close> in order.
\<close>

definition DIGITS :: string where
  "DIGITS = ''0123456789''"

definition TOKENS :: "string list" where
  "TOKENS = [''<bos>'', ''+'', ''='', ''<eos>''] @ map (\<lambda>c. [c]) DIGITS"

definition dict_of :: "('k \<times> 'v) list \<Rightarrow> ('k \<rightharpoonup> 'v)" where
  "dict_of kvs = foldl (\<lambda>m (k, v). m(k \<mapsto> v)) Map.empty kvs"

definition STOI :: "string \<rightharpoonup> nat" where
  "STOI = dict_of (map (\<lambda>(i, t). (t, i)) (enumerate 0 TOKENS))"

definition ITOS :: "nat \<rightharpoonup> string" where
  "ITOS = dict_of (enumerate 0 TOKENS)"

definition VOCAB :: nat where
  "VOCAB = length TOKENS"

definition SEQ_LEN :: nat where
  "SEQ_LEN = 35"

text \<open>
  Python's \<^verbatim>\<open>str(n)\<close> for a non-negative integer, and the format \<^verbatim>\<open>f"{n:0wd}"\<close>:
  decimal digits, most significant first, padded on the left with zeros to at least
  \<open>w\<close> characters, the sign of a negative number counted in the width.
\<close>

definition digit_char :: "nat \<Rightarrow> char" where
  "digit_char n = char_of (48 + n)"

fun str_nat :: "nat \<Rightarrow> string" where
  "str_nat n = (if n < 10 then [digit_char n] else str_nat (n div 10) @ [digit_char (n mod 10)])"

declare str_nat.simps [simp del]

definition zfill :: "nat \<Rightarrow> string \<Rightarrow> string" where
  "zfill w s = replicate (w - length s) (CHR ''0'') @ s"

definition format_d :: "nat \<Rightarrow> int \<Rightarrow> string" where
  "format_d w n =
     (if n < 0 then CHR ''-'' # zfill (w - 1) (str_nat (nat (- n)))
      else zfill w (str_nat (nat n)))"

text \<open>
  Python's \<^verbatim>\<open>int(s)\<close> on a string made of token characters: an optional sign and then
  one or more decimal digits; anything else raises ValueError. (Python also accepts
  surrounding whitespace and underscores between digits; no token contains either.)
\<close>

definition digit_val :: "char \<Rightarrow> nat option" where
  "digit_val c =
     (let k = (of_char c :: nat) in if 48 \<le> k \<and> k \<le> 57 then Some (k - 48) else None)"

fun parse_digits :: "nat \<Rightarrow> string \<Rightarrow> nat option" where
  "parse_digits acc [] = Some acc"
| "parse_digits acc (c # cs) =
     (case digit_val c of None \<Rightarrow> None | Some d \<Rightarrow> parse_digits (10 * acc + d) cs)"

definition parse_nat :: "string \<Rightarrow> nat option" where
  "parse_nat s = (if s = [] then None else parse_digits 0 s)"

definition py_int :: "string \<Rightarrow> py_error + int" where
  "py_int s =
     (case s of
        [] \<Rightarrow> Inl ValueError
      | c # cs \<Rightarrow>
          if c = CHR ''-'' then
            (case parse_nat cs of None \<Rightarrow> Inl ValueError | Some n \<Rightarrow> Inr (- int n))
          else if c = CHR ''+'' then
            (case parse_nat cs of None \<Rightarrow> Inl ValueError | Some n \<Rightarrow> Inr (int n))
          else
            (case parse_nat s of None \<Rightarrow> Inl ValueError | Some n \<Rightarrow> Inr (int n)))"

text \<open>Looking every element of a list up in a dict; a missing key raises KeyError.\<close>

fun lookup_all :: "('k \<rightharpoonup> 'v) \<Rightarrow> 'k list \<Rightarrow> py_error + 'v list" where
  "lookup_all m [] = Inr []"
| "lookup_all m (k # ks) =
     (case m k of
        None \<Rightarrow> Inl KeyError
      | Some v \<Rightarrow> (case lookup_all m ks of Inl e \<Rightarrow> Inl e | Inr vs \<Rightarrow> Inr (v # vs)))"

text \<open>\<^verbatim>\<open>xs.index(x)\<close>: the first position of \<open>x\<close>, ValueError when absent.\<close>

fun index_of :: "'a \<Rightarrow> 'a list \<Rightarrow> py_error + nat" where
  "index_of x [] = Inl ValueError"
| "index_of x (y # ys) =
     (if x = y then Inr 0
      else (case index_of x ys of Inl e \<Rightarrow> Inl e | Inr i \<Rightarrow> Inr (Suc i)))"

text \<open>\<^verbatim>\<open>xs[i:j]\<close> for non-negative \<open>i\<close>, \<open>j\<close>, and \<^verbatim>\<open>xs[k:] = v\<close> on a tensor.\<close>

definition slice :: "nat \<Rightarrow> nat \<Rightarrow> 'a list \<Rightarrow> 'a list" where
  "slice i j xs = take (j - i) (drop i xs)"

definition fill_from :: "nat \<Rightarrow> 'a \<Rightarrow> 'a list \<Rightarrow> 'a list" where
  "fill_from k v xs = take k xs @ replicate (length xs - k) v"

text \<open>
  \<^verbatim>\<open>encode_example(a, b)\<close> returns \<open>(ids, target, mask)\<close>; the tensors are lists, the
  float mask a list of reals.
\<close>

definition chars :: "string \<Rightarrow> string list" where
  "chars s = map (\<lambda>c. [c]) s"

definition encode_toks :: "int \<Rightarrow> int \<Rightarrow> string list" where
  "encode_toks a b =
     (let a_str = rev (format_d 10 a);
          b_str = rev (format_d 10 b);
          c = a + b;
          c_str = rev (format_d 11 c)
      in [''<bos>''] @ chars a_str @ [''+''] @ chars b_str @ [''=''] @ chars c_str @ [''<eos>''])"

definition encode_example :: "int \<Rightarrow> int \<Rightarrow> py_error + (nat list \<times> nat list \<times> real list)" where
  "encode_example a b =
     (let toks = encode_toks a b in
      if length toks \<noteq> SEQ_LEN then Inl AssertionError
      else
        (case lookup_all STOI toks of
           Inl e \<Rightarrow> Inl e
         | Inr ids \<Rightarrow>
             (let target = ids;
                  mask = replicate (length ids) (0::real)
              in (case index_of ''='' toks of
                    Inl e \<Rightarrow> Inl e
                  | Inr eq_idx \<Rightarrow> Inr (ids, target, fill_from (eq_idx + 1) 1 mask)))))"

text \<open>
  The body of the loop of \<^verbatim>\<open>validate_dataset\<close>: the three regions of the decoded token
  list are joined, reversed and parsed, each checked by its own assertion in turn.
\<close>

definition decode_region :: "string list \<Rightarrow> nat \<Rightarrow> nat \<Rightarrow> py_error + int" where
  "decode_region toks i j = py_int (rev (concat (slice i j toks)))"

definition validate_example :: "int \<Rightarrow> int \<Rightarrow> py_error + unit" where
  "validate_example a b =
     (case encode_example a b of
        Inl e \<Rightarrow> Inl e
      | Inr (ids, _, _) \<Rightarrow>
          (case lookup_all ITOS ids of
             Inl e \<Rightarrow> Inl e
           | Inr toks \<Rightarrow>
               (case decode_region toks 1 11 of
                  Inl e \<Rightarrow> Inl e
                | Inr va \<Rightarrow>
                    if va \<noteq> a then Inl AssertionError
                    else
                      (case decode_region toks 12 22 of
                         Inl e \<Rightarrow> Inl e
                       | Inr vb \<Rightarrow>
                           if vb \<noteq> b then Inl AssertionError
                           else
                             (case decode_region toks 23 34 of
                                Inl e \<Rightarrow> Inl e
                              | Inr vc \<Rightarrow>
                                  if vc \<noteq> a + b then Inl AssertionError else Inr ())))))"

fun validate_loop :: "(int \<times> int) list \<Rightarrow> py_error + unit" where
  "validate_loop [] = Inr ()"
| "validate_loop ((a, b) # rest) =
     (case validate_example a b of Inl e \<Rightarrow> Inl e | Inr _ \<Rightarrow> validate_loop rest)"

definition validate_dataset :: "(int \<times> int) list \<Rightarrow> py_error + unit" where
  "validate_dataset samples = validate_loop (take 2000 samples)"

section \<open>Parameter accounting of run\_search.py\<close>

text \<open>
  A parameter tensor is known by its shape; \<^verbatim>\<open>p.numel()\<close> is the product of the
  dimensions. The PyTorch layers register these parameters:
  \<^verbatim>\<open>nn.Embedding(n, d)\<close> a weight of shape \<open>(n, d)\<close>;
  \<^verbatim>\<open>nn.LayerNorm(d)\<close> a weight and a bias of shape \<open>(d)\<close>;
  \<^verbatim>\<open>nn.Linear(i, o)\<close> a weight of shape \<open>(o, i)\<close> and a bias of shape \<open>(o)\<close>.
  \<^verbatim>\<open>model.parameters()\<close> lists them in the order of registration.
\<close>

type_synonym shape = "nat list"

definition numel :: "shape \<Rightarrow> nat" where
  "numel s = prod_list s"

definition nn_Embedding :: "nat \<Rightarrow> nat \<Rightarrow> shape list" where
  "nn_Embedding n d = [[n, d]]"

definition nn_LayerNorm :: "nat \<Rightarrow> shape list" where
  "nn_LayerNorm d = [[d], [d]]"

definition nn_Linear :: "nat \<Rightarrow> nat \<Rightarrow> shape list" where
  "nn_Linear inp out = [[out, inp], [out]]"

text \<open>
  \<^verbatim>\<open>TinyTransformer.__init__(d_model, d_ff)\<close>: the parameters of the modules
  \<open>tok_emb, ln1, q, k, v, proj, ln2, fc1, fc2, ln_f\<close>. The output projection reuses
  \<open>tok_emb.weight\<close> in \<open>forward\<close> and registers nothing of its own.
\<close>

definition TinyTransformer :: "nat \<Rightarrow> nat \<Rightarrow> shape list" where
  "TinyTransformer d_model d_ff =
     nn_Embedding VOCAB d_model
     @ nn_LayerNorm d_model
     @ nn_Linear d_model d_model
     @ nn_Linear d_model d_model
     @ nn_Linear d_model d_model
     @ nn_Linear d_model d_model
     @ nn_LayerNorm d_model
     @ nn_Linear d_model d_ff
     @ nn_Linear d_ff d_model
     @ nn_LayerNorm d_model"

definition count_params :: "shape list \<Rightarrow> nat" where
  "count_params model = sum_list (map numel model)"

section \<open>Selection of the reported attempt\<close>

text \<open>
  Python's \<^verbatim>\<open>max(xs, key=f)\<close> and \<^verbatim>\<open>min(xs, key=f)\<close> return the first element whose key
  is largest (smallest) and raise ValueError on an empty sequence. Accuracies are Python
  floats, modelled as reals.
\<close>

fun py_max :: "('a \<Rightarrow> 'k::linorder) \<Rightarrow> 'a list \<Rightarrow> py_error + 'a" where
  "py_max key [] = Inl ValueError"
| "py_max key (x # xs) = Inr (foldl (\<lambda>best y. if key best < key y then y else best) x xs)"

fun py_min :: "('a \<Rightarrow> 'k::linorder) \<Rightarrow> 'a list \<Rightarrow> py_error + 'a" where
  "py_min key [] = Inl ValueError"
| "py_min key (x # xs) = Inr (foldl (\<lambda>best y. if key y < key best then y else best) x xs)"

text \<open>
  run\_search.py: the summary that \<^verbatim>\<open>train_attempt\<close> returns (the fields the selection
  reads, and the attempt's name), and the last lines of \<^verbatim>\<open>main\<close>:
  \<^verbatim>\<open>best = max(summaries, key=lambda x: x["best_val_seq_acc"])\<close>.
\<close>

record summary =
  attempt_name :: string
  params :: nat
  best_val_seq_acc :: real

definition run_search_best :: "summary list \<Rightarrow> py_error + summary" where
  "run_search_best summaries = py_max best_val_seq_acc summaries"

text \<open>
  generate\_report.py, which reads the summaries that run\_search.py wrote:
  \<^verbatim>\<open>best_under = [r for r in summary if r['params'] < 491]\<close>,
  \<^verbatim>\<open>best = min([r for r in best_under if r['best_val_seq_acc'] >= 0.999], key=lambda x: x['params'])\<close>.
\<close>

definition generate_report_best :: "summary list \<Rightarrow> py_error + summary" where
  "generate_report_best summaries =
     (let best_under = filter (\<lambda>r. params r < 491) summaries
      in py_min params (filter (\<lambda>r. best_val_seq_acc r \<ge> 0.999) best_under))"

text \<open>
  tiny\_addition\_search.py: the dataclass \<^verbatim>\<open>AttemptResult\<close> (its fields prefixed with \<open>r_\<close>) and the selection of \<^verbatim>\<open>main\<close>:
  \<^verbatim>\<open>valid = [r for r in results if r.params < 491]\<close>,
  \<^verbatim>\<open>valid.sort(key=lambda r: (-r.r_val_seq_acc, r.params))\<close>, \<^verbatim>\<open>selected = valid[0]\<close>.
  Python's sort is stable, as \<open>sort_key\<close> is; tuples compare lexicographically.
\<close>

record AttemptResult =
  r_d_model :: nat
  r_d_ff :: nat
  r_n_layers :: nat
  r_params :: nat
  r_train_loss :: real
  r_val_token_acc :: real
  r_val_seq_acc :: real

definition select_valid :: "AttemptResult list \<Rightarrow> py_error + AttemptResult" where
  "select_valid results =
     (let valid = filter (\<lambda>r. r_params r < 491) results;
          valid = sort_key (\<lambda>r. (- r_val_seq_acc r, r_params r)) valid
      in (case valid of [] \<Rightarrow> Inl IndexError | selected # _ \<Rightarrow> Inr selected))"

section \<open>Floating-point values\<close>

text \<open>
  The losses of the training loop are \<^verbatim>\<open>torch.float32\<close> values and Python floats, which
  can be infinite or NaN. A float is modelled as a finite real, an infinity or NaN; the
  two zeros are not distinguished. An arithmetic result whose magnitude reaches the
  overflow threshold of the format is an infinity; below it the result is rounded, and
  the rounding function is a parameter (\<open>round32\<close> for float32, \<open>round64\<close> for Python's
  float). The special cases are those of IEEE 754: \<open>0 \<times> \<infinity>\<close>, \<open>\<infinity> - \<infinity>\<close>, \<open>0 / 0\<close> and
  \<open>\<infinity> / \<infinity>\<close> are NaN, and NaN propagates.
\<close>

datatype fl = Fin real | PInf | NInf | NaN

definition overflow32 :: real where
  "overflow32 = 2 ^ 128 - 2 ^ 103"

definition overflow64 :: real where
  "overflow64 = 2 ^ 1024 - 2 ^ 970"

definition fin :: "real \<Rightarrow> (real \<Rightarrow> real) \<Rightarrow> real \<Rightarrow> fl" where
  "fin thr r v = (if thr \<le> v then PInf else if v \<le> - thr then NInf else Fin (r v))"

fun fl_neg :: "fl \<Rightarrow> fl" where
  "fl_neg (Fin a) = Fin (- a)"
| "fl_neg PInf = NInf"
| "fl_neg NInf = PInf"
| "fl_neg NaN = NaN"

fun fl_add :: "real \<Rightarrow> (real \<Rightarrow> real) \<Rightarrow> fl \<Rightarrow> fl \<Rightarrow> fl" where
  "fl_add thr r (Fin a) (Fin b) = fin thr r (a + b)"
| "fl_add thr r (Fin a) PInf = PInf"
| "fl_add thr r (Fin a) NInf = NInf"
| "fl_add thr r PInf (Fin b) = PInf"
| "fl_add thr r PInf PInf = PInf"
| "fl_add thr r PInf NInf = NaN"
| "fl_add thr r NInf (Fin b) = NInf"
| "fl_add thr r NInf PInf = NaN"
| "fl_add thr r NInf NInf = NInf"
| "fl_add thr r NaN b = NaN"
| "fl_add thr r (Fin a) NaN = NaN"
| "fl_add thr r PInf NaN = NaN"
| "fl_add thr r NInf NaN = NaN"

definition signed_inf :: "bool \<Rightarrow> fl" where
  "signed_inf positive = (if positive then PInf else NInf)"

fun fl_mul :: "real \<Rightarrow> (real \<Rightarrow> real) \<Rightarrow> fl \<Rightarrow> fl \<Rightarrow> fl" where
  "fl_mul thr r (Fin a) (Fin b) = fin thr r (a * b)"
| "fl_mul thr r (Fin a) PInf = (if a = 0 then NaN else signed_inf (0 < a))"
| "fl_mul thr r (Fin a) NInf = (if a = 0 then NaN else signed_inf (a < 0))"
| "fl_mul thr r PInf (Fin b) = (if b = 0 then NaN else signed_inf (0 < b))"
| "fl_mul thr r NInf (Fin b) = (if b = 0 then NaN else signed_inf (b < 0))"
| "fl_mul thr r PInf PInf = PInf"
| "fl_mul thr r PInf NInf = NInf"
| "fl_mul thr r NInf PInf = NInf"
| "fl_mul thr r NInf NInf = PInf"
| "fl_mul thr r NaN b = NaN"
| "fl_mul thr r (Fin a) NaN = NaN"
| "fl_mul thr r PInf NaN = NaN"
| "fl_mul thr r NInf NaN = NaN"

fun fl_div :: "real \<Rightarrow> (real \<Rightarrow> real) \<Rightarrow> fl \<Rightarrow> fl \<Rightarrow> fl" where
  "fl_div thr r (Fin a) (Fin b) =
     (if b = 0 then (if a = 0 then NaN else signed_inf (0 < a)) else fin thr r (a / b))"
| "fl_div thr r (Fin a) PInf = Fin 0"
| "fl_div thr r (Fin a) NInf = Fin 0"
| "fl_div thr r PInf (Fin b) = signed_inf (0 \<le> b)"
| "fl_div thr r NInf (Fin b) = signed_inf (b < 0)"
| "fl_div thr r PInf PInf = NaN"
| "fl_div thr r PInf NInf = NaN"
| "fl_div thr r NInf PInf = NaN"
| "fl_div thr r NInf NInf = NaN"
| "fl_div thr r NaN b = NaN"
| "fl_div thr r (Fin a) NaN = NaN"
| "fl_div thr r PInf NaN = NaN"
| "fl_div thr r NInf NaN = NaN"


fun is_finite :: "fl \<Rightarrow> bool" where
  "is_finite (Fin a) = True"
| "is_finite PInf = False"
| "is_finite NInf = False"
| "is_finite NaN = False"

text \<open>
  What the arithmetic of the machine and of the library does below the level of the
  source is a parameter: the two rounding functions, the float32 cross entropy
  \<^verbatim>\<open>F.cross_entropy\<close> of one row of logits against its target, and the reduction
  \<^verbatim>\<open>Tensor.sum\<close> of a float32 tensor, whose order of additions PyTorch does not fix. The
  entries of a tensor of logits and of a mask are finite float32 values, given as reals.
\<close>

record fpu =
  round32 :: "real \<Rightarrow> real"
  round64 :: "real \<Rightarrow> real"
  cross_entropy_row :: "real list \<Rightarrow> nat \<Rightarrow> fl"
  tensor_sum :: "fl list \<Rightarrow> fl"

definition mul32 :: "fpu \<Rightarrow> fl \<Rightarrow> fl \<Rightarrow> fl" where
  "mul32 fp = fl_mul overflow32 (round32 fp)"

definition div32 :: "fpu \<Rightarrow> fl \<Rightarrow> fl \<Rightarrow> fl" where
  "div32 fp = fl_div overflow32 (round32 fp)"

text \<open>
  Python's float operators \<^verbatim>\<open>+\<close>, \<^verbatim>\<open>*\<close> and \<^verbatim>\<open>/\<close>; the division raises ZeroDivisionError
  for a divisor that is zero.
\<close>

definition py_add :: "fpu \<Rightarrow> fl \<Rightarrow> fl \<Rightarrow> fl" where
  "py_add fp = fl_add overflow64 (round64 fp)"

definition py_mul :: "fpu \<Rightarrow> fl \<Rightarrow> fl \<Rightarrow> fl" where
  "py_mul fp = fl_mul overflow64 (round64 fp)"

definition py_truediv :: "fpu \<Rightarrow> fl \<Rightarrow> fl \<Rightarrow> py_error + fl" where
  "py_truediv fp a b =
     (if b = Fin 0 then Inl ZeroDivisionError else Inr (fl_div overflow64 (round64 fp) a b))"

section \<open>Batches, masked loss and evaluation of run\_search.py\<close>

text \<open>
  Tensors are nested lists; the entries of a tensor of logits or of a mask are finite
  floats, given as reals. A batch is \<open>(x, y, m)\<close>: token
  ids, targets and masks, one row per example.
\<close>

type_synonym batch = "nat list list \<times> nat list list \<times> real list list"

text \<open>
  \<^verbatim>\<open>batchify(pairs, bs)\<close> is a generator over \<^verbatim>\<open>range(0, len(pairs), bs)\<close>: the chunks
  \<^verbatim>\<open>pairs[i : i + bs]\<close>, each encoded when the consuming loop reaches it.
  \<^verbatim>\<open>range\<close> raises ValueError for a step of zero.
\<close>

function chunks :: "nat \<Rightarrow> 'a list \<Rightarrow> 'a list list" where
  "chunks bs xs = (if bs = 0 \<or> xs = [] then [] else take bs xs # chunks bs (drop bs xs))"
  by pat_completeness auto
termination
  by (relation "measure (\<lambda>(bs, xs). length xs)") auto

declare chunks.simps [simp del]

fun encode_all :: "(int \<times> int) list \<Rightarrow> py_error + (nat list \<times> nat list \<times> real list) list" where
  "encode_all [] = Inr []"
| "encode_all ((a, b) # rest) =
     (case encode_example a b of
        Inl e \<Rightarrow> Inl e
      | Inr ex \<Rightarrow> (case encode_all rest of Inl e \<Rightarrow> Inl e | Inr exs \<Rightarrow> Inr (ex # exs)))"

definition encode_batch :: "(int \<times> int) list \<Rightarrow> py_error + batch" where
  "encode_batch chunk =
     (case encode_all chunk of
        Inl e \<Rightarrow> Inl e
      | Inr exs \<Rightarrow>
          if exs = [] then Inl ValueError
          else Inr (map (\<lambda>(ids, target, mask). ids) exs,
                    map (\<lambda>(ids, target, mask). target) exs,
                    map (\<lambda>(ids, target, mask). mask) exs))"

definition batchify :: "(int \<times> int) list \<Rightarrow> nat \<Rightarrow> (py_error + batch) list" where
  "batchify pairs bs =
     (if bs = 0 then [Inl ValueError] else map encode_batch (chunks bs pairs))"

text \<open>
  The loss of one batch in \<^verbatim>\<open>train_attempt\<close>:
  \<^verbatim>\<open>loss = F.cross_entropy(logits.view(-1, VOCAB), y.view(-1), reduction="none")\<close>,
  \<^verbatim>\<open>loss = (loss * m.view(-1)).sum() / m.sum()\<close>.
  \<^verbatim>\<open>view(-1, VOCAB)\<close> regroups the flattened tensor in rows of \<open>VOCAB\<close> entries and fails
  when the size is not a multiple of it. \<^verbatim>\<open>F.cross_entropy\<close> fails for a target outside
  its row or a number of targets that is not the number of rows, and gives one float32
  loss per row. The product \<^verbatim>\<open>loss * m.view(-1)\<close> is elementwise in float32, a tensor of
  one element being broadcast to the size of the other; the two sums and the quotient
  are float32 operations.
\<close>

definition view_rows :: "nat \<Rightarrow> real list list list \<Rightarrow> py_error + real list list" where
  "view_rows n t =
     (let flat = concat (concat t)
      in if n = 0 \<or> length flat mod n \<noteq> 0 then Inl RuntimeError else Inr (chunks n flat))"

definition cross_entropy_none :: "fpu \<Rightarrow> real list list \<Rightarrow> nat list \<Rightarrow> py_error + fl list" where
  "cross_entropy_none fp rows targets =
     (if length rows \<noteq> length targets then Inl ValueError
      else if \<exists>(r, t) \<in> set (zip rows targets). length r \<le> t then Inl IndexError
      else Inr (map (\<lambda>(r, t). cross_entropy_row fp r t) (zip rows targets)))"

definition broadcast_mul :: "fpu \<Rightarrow> fl list \<Rightarrow> fl list \<Rightarrow> py_error + fl list" where
  "broadcast_mul fp a b =
     (if length a = length b then Inr (map (\<lambda>(u, w). mul32 fp u w) (zip a b))
      else if length b = 1 then Inr (map (\<lambda>u. mul32 fp u (hd b)) a)
      else if length a = 1 then Inr (map (\<lambda>w. mul32 fp (hd a) w) b)
      else Inl RuntimeError)"

definition masked_loss ::
  "fpu \<Rightarrow> real list list list \<Rightarrow> nat list list \<Rightarrow> real list list \<Rightarrow> py_error + fl" where
  "masked_loss fp logits y m =
     (case view_rows VOCAB logits of
        Inl e \<Rightarrow> Inl e
      | Inr rows \<Rightarrow>
          (case cross_entropy_none fp rows (concat y) of
             Inl e \<Rightarrow> Inl e
           | Inr loss \<Rightarrow>
               (case broadcast_mul fp loss (map Fin (concat m)) of
                  Inl e \<Rightarrow> Inl e
                | Inr weighted \<Rightarrow>
                    Inr (div32 fp (tensor_sum fp weighted)
                                  (tensor_sum fp (map Fin (concat m)))))))"

text \<open>
  \<^verbatim>\<open>evaluate(model, pairs, bs=512)\<close>. The model is any function from a batch of token
  ids to a tensor of logits of rank 3 (or an exception); a result whose rows differ in
  length is not a tensor and is refused. \<^verbatim>\<open>argmax(-1)\<close> takes the first index of the
  largest logit of each position. The comparison \<^verbatim>\<open>pred == y\<close> broadcasts: a dimension
  of the prediction and the dimension of the targets must be equal, or one of them is 1
  and is repeated to the size of the other. An empty prediction has no rows to tell its
  width, which is taken to be that of the targets.
\<close>

type_synonym model_fn = "nat list list \<Rightarrow> py_error + real list list list"

fun argmax_from :: "real \<Rightarrow> nat \<Rightarrow> nat \<Rightarrow> real list \<Rightarrow> nat" where
  "argmax_from best bi i [] = bi"
| "argmax_from best bi i (v # vs) =
     (if best < v then argmax_from v i (Suc i) vs else argmax_from best bi (Suc i) vs)"

definition argmax :: "real list \<Rightarrow> py_error + nat" where
  "argmax vs = (case vs of [] \<Rightarrow> Inl IndexError | v # rest \<Rightarrow> Inr (argmax_from v 0 1 rest))"

fun all_ok :: "(py_error + 'a) list \<Rightarrow> py_error + 'a list" where
  "all_ok [] = Inr []"
| "all_ok (r # rs) =
     (case r of
        Inl e \<Rightarrow> Inl e
      | Inr v \<Rightarrow> (case all_ok rs of Inl e \<Rightarrow> Inl e | Inr vs \<Rightarrow> Inr (v # vs)))"

definition argmax_last :: "real list list list \<Rightarrow> py_error + nat list list" where
  "argmax_last logits = all_ok (map (\<lambda>row. all_ok (map argmax row)) logits)"

definition width :: "'a list list \<Rightarrow> nat" where
  "width A = (case A of [] \<Rightarrow> 0 | r # rest \<Rightarrow> length r)"

definition bdim :: "nat \<Rightarrow> nat \<Rightarrow> nat option" where
  "bdim a b = (if a = b then Some a else if a = 1 then Some b else if b = 1 then Some a else None)"

definition broadcast_shape :: "'a list list \<Rightarrow> nat \<times> nat \<Rightarrow> py_error + (nat \<times> nat)" where
  "broadcast_shape A s =
     (case s of (B, T) \<Rightarrow>
        if \<not> list_all (\<lambda>r. length r = width A) A then Inl RuntimeError
        else
          (case bdim (length A) B of
             None \<Rightarrow> Inl RuntimeError
           | Some R \<Rightarrow>
               (case (if A = [] then Some T else bdim (width A) T) of
                  None \<Rightarrow> Inl RuntimeError
                | Some C \<Rightarrow> Inr (R, C))))"

definition expand :: "nat \<Rightarrow> 'a list \<Rightarrow> 'a list" where
  "expand n xs = (if length xs = n then xs else replicate n (hd xs))"

definition broadcast2 :: "nat \<Rightarrow> nat \<Rightarrow> 'a list list \<Rightarrow> 'a list list" where
  "broadcast2 R C A = expand R (map (expand C) A)"

record counters =
  tok_correct :: nat
  tok_total :: nat
  seq_correct :: nat
  seq_total :: nat

definition count_true :: "bool list \<Rightarrow> nat" where
  "count_true bs = length (filter id bs)"

definition cmp_row :: "nat list \<Rightarrow> nat list \<Rightarrow> real list \<Rightarrow> bool list" where
  "cmp_row pred y m = map (\<lambda>(p, t, w). p = t \<and> w > 0) (zip pred (zip y m))"

text \<open>
  One pass of the loop of \<^verbatim>\<open>evaluate\<close>. \<open>y\<close> and \<open>m\<close> have the same shape \<open>(B, T)\<close>, so
  \<^verbatim>\<open>cmp = (pred == y) & (m > 0)\<close> has the broadcast shape \<open>(R, C)\<close> of \<open>pred\<close> and \<open>y\<close>.
  \<^verbatim>\<open>cmp.sum(dim=1)\<close> has \<open>R\<close> entries and \<^verbatim>\<open>(m > 0).sum(dim=1)\<close> has \<open>B\<close>, which is \<open>R\<close>
  or 1, and their comparison broadcasts again.
\<close>

definition evaluate_batch :: "model_fn \<Rightarrow> batch \<Rightarrow> counters \<Rightarrow> py_error + counters" where
  "evaluate_batch model b c =
     (case b of (x, y, m) \<Rightarrow>
        (case model x of
           Inl e \<Rightarrow> Inl e
         | Inr logits \<Rightarrow>
             (case argmax_last logits of
                Inl e \<Rightarrow> Inl e
              | Inr pred \<Rightarrow>
                  (case broadcast_shape pred (length y, width y) of
                     Inl e \<Rightarrow> Inl e
                   | Inr (R, C) \<Rightarrow>
                       (let cmp = map (\<lambda>(p, t, w). cmp_row p t w)
                                    (zip (broadcast2 R C pred)
                                         (zip (broadcast2 R C y) (broadcast2 R C m)));
                            msk = map (map (\<lambda>w. w > 0)) m;
                            seq_ok = map (\<lambda>(k, n). k = n)
                                       (zip (map count_true cmp) (expand R (map count_true msk)))
                        in Inr \<lparr>tok_correct = tok_correct c + sum_list (map count_true cmp),
                                tok_total = tok_total c + sum_list (map count_true msk),
                                seq_correct = seq_correct c + count_true seq_ok,
                                seq_total = seq_total c + length x\<rparr>)))))"

fun evaluate_loop :: "model_fn \<Rightarrow> (py_error + batch) list \<Rightarrow> counters \<Rightarrow> py_error + counters" where
  "evaluate_loop model [] c = Inr c"
| "evaluate_loop model (b # rest) c =
     (case b of
        Inl e \<Rightarrow> Inl e
      | Inr xym \<Rightarrow>
          (case evaluate_batch model xym c of
             Inl e \<Rightarrow> Inl e
           | Inr c' \<Rightarrow> evaluate_loop model rest c'))"

definition evaluate :: "model_fn \<Rightarrow> (int \<times> int) list \<Rightarrow> nat \<Rightarrow> py_error + (real \<times> real)" where
  "evaluate model pairs bs =
     (case evaluate_loop model (batchify pairs bs)
             \<lparr>tok_correct = 0, tok_total = 0, seq_correct = 0, seq_total = 0\<rparr> of
        Inl e \<Rightarrow> Inl e
      | Inr c \<Rightarrow>
          if tok_total c = 0 \<or> seq_total c = 0 then Inl ZeroDivisionError
          else Inr (real (tok_correct c) / real (tok_total c),
                    real (seq_correct c) / real (seq_total c)))"

section \<open>Batches and evaluation of tiny\_addition\_search.py\<close>













section \<open>The epoch loop of train\_attempt (run\_search.py)\<close>

text \<open>
  The dataclass \<^verbatim>\<open>Attempt\<close> and the metrics of one epoch (the key \<^verbatim>\<open>"params"\<close> of the
  metrics is the field \<open>n_params\<close>).
\<close>

record attempt =
  name :: string
  d_model :: nat
  d_ff :: nat
  lr :: real
  epochs :: nat
  batch_size :: nat

record metrics =
  epoch :: nat
  train_loss :: fl
  train_tok_acc :: real
  train_seq_acc :: real
  val_tok_acc :: real
  val_seq_acc :: real
  n_params :: nat

text \<open>
  What PyTorch and the random module do is a parameter of the model. The training state
  \<open>'st\<close> holds the weights, the state of the optimizer and the global random generator:
  \<open>forward st\<close> is \<^verbatim>\<open>model(x)\<close> with the current weights;
  \<open>opt_step st batch\<close> is \<^verbatim>\<open>zero_grad\<close>, \<^verbatim>\<open>backward\<close> on the loss of the batch,
  \<^verbatim>\<open>clip_grad_norm_\<close> and \<^verbatim>\<open>opt.step\<close>;
  \<open>shuffle st pairs\<close> is \<^verbatim>\<open>random.shuffle\<close>, which reorders the list in place;
  \<open>arith\<close> is the floating-point arithmetic.
\<close>

record 'st trainer =
  forward :: "'st \<Rightarrow> model_fn"
  opt_step :: "'st \<Rightarrow> batch \<Rightarrow> 'st"
  shuffle :: "'st \<Rightarrow> (int \<times> int) list \<Rightarrow> (int \<times> int) list \<times> 'st"
  arith :: fpu

text \<open>
  The inner loop over the batches of one epoch: \<open>(total_loss, total_count)\<close>, two Python
  floats; \<^verbatim>\<open>.item()\<close> turns a float32 into the Python float of the same value.
\<close>

fun train_batches ::
  "'st trainer \<Rightarrow> (py_error + batch) list \<Rightarrow> 'st \<Rightarrow> fl \<times> fl \<Rightarrow> py_error + ('st \<times> fl \<times> fl)" where
  "train_batches tr [] st (total_loss, total_count) = Inr (st, total_loss, total_count)"
| "train_batches tr (b # rest) st (total_loss, total_count) =
     (case b of
        Inl e \<Rightarrow> Inl e
      | Inr (x, y, m) \<Rightarrow>
          (case forward tr st x of
             Inl e \<Rightarrow> Inl e
           | Inr logits \<Rightarrow>
               (case masked_loss (arith tr) logits y m of
                  Inl e \<Rightarrow> Inl e
                | Inr loss \<Rightarrow>
                    (let m_sum = tensor_sum (arith tr) (map Fin (concat m))
                     in train_batches tr rest (opt_step tr st (x, y, m))
                          (py_add (arith tr) total_loss (py_mul (arith tr) loss m_sum),
                           py_add (arith tr) total_count m_sum)))))"

text \<open>
  One pass of the body of \<^verbatim>\<open>for epoch in range(1, attempt.epochs + 1)\<close>, up to the
  metrics; the state carries the shuffled training pairs to the next epoch.
\<close>

definition train_epoch ::
  "'st trainer \<Rightarrow> attempt \<Rightarrow> nat \<Rightarrow> (int \<times> int) list \<Rightarrow> nat \<Rightarrow> (int \<times> int) list \<times> 'st
     \<Rightarrow> py_error + (((int \<times> int) list \<times> 'st) \<times> metrics)" where
  "train_epoch tr a n_par val_pairs ep s =
     (case s of (train_pairs, st) \<Rightarrow>
        (case shuffle tr st train_pairs of (train_pairs, st) \<Rightarrow>
           (case train_batches tr (batchify train_pairs (batch_size a)) st (Fin 0, Fin 0) of
              Inl e \<Rightarrow> Inl e
            | Inr (st, total_loss, total_count) \<Rightarrow>
                (case py_truediv (arith tr) total_loss total_count of
                   Inl e \<Rightarrow> Inl e
                 | Inr loss \<Rightarrow>
                  (case evaluate (forward tr st) (take 4096 train_pairs) 512 of
                     Inl e \<Rightarrow> Inl e
                   | Inr (train_tok, train_seq) \<Rightarrow>
                       (case evaluate (forward tr st) val_pairs 512 of
                          Inl e \<Rightarrow> Inl e
                        | Inr (val_tok, val_seq) \<Rightarrow>
                            Inr ((train_pairs, st),
                                 \<lparr>epoch = ep, train_loss = loss,
                                  train_tok_acc = train_tok, train_seq_acc = train_seq,
                                  val_tok_acc = val_tok, val_seq_acc = val_seq,
                                  n_params = n_par\<rparr>)))))))"

text \<open>
  The epoch loop: the metrics are appended to the history, and
  \<^verbatim>\<open>if val_seq >= 0.999 and epoch >= 3: break\<close> ends the loop.
\<close>

function epoch_loop ::
  "(nat \<Rightarrow> 's \<Rightarrow> py_error + ('s \<times> metrics)) \<Rightarrow> nat \<Rightarrow> nat \<Rightarrow> 's \<Rightarrow> metrics list
     \<Rightarrow> py_error + ('s \<times> metrics list)" where
  "epoch_loop body n ep s history =
     (if n < ep then Inr (s, history)
      else
        (case body ep s of
           Inl e \<Rightarrow> Inl e
         | Inr (s', mt) \<Rightarrow>
             if val_seq_acc mt \<ge> 0.999 \<and> ep \<ge> 3 then Inr (s', history @ [mt])
             else epoch_loop body n (Suc ep) s' (history @ [mt])))"
  by pat_completeness auto
termination
  by (relation "measure (\<lambda>(body, n, ep, s, history). Suc n - ep)") auto

declare epoch_loop.simps [simp del]

text \<open>
  \<^verbatim>\<open>train_attempt\<close>: the model is built and counted, the epochs run, and the summary
  \<^verbatim>\<open>out\<close> is made of the history (\<^verbatim>\<open>max\<close> raises ValueError when no epoch ran). The
  result is the summary, the history, and the training pairs and state left behind.
\<close>

definition train_attempt ::
  "'st trainer \<Rightarrow> attempt \<Rightarrow> (int \<times> int) list \<Rightarrow> (int \<times> int) list \<Rightarrow> 'st
     \<Rightarrow> py_error + (summary \<times> metrics list \<times> (int \<times> int) list \<times> 'st)" where
  "train_attempt tr a train_pairs val_pairs st =
     (let n_par = count_params (TinyTransformer (d_model a) (d_ff a))
      in (case epoch_loop (train_epoch tr a n_par val_pairs) (epochs a) 1 (train_pairs, st) [] of
            Inl e \<Rightarrow> Inl e
          | Inr ((train_pairs, st), history) \<Rightarrow>
              (case py_max id (map val_seq_acc history) of
                 Inl e \<Rightarrow> Inl e
               | Inr best \<Rightarrow>
                   Inr (\<lparr>attempt_name = name a, params = n_par, best_val_seq_acc = best\<rparr>,
                        history, train_pairs, st))))"

section \<open>Dataset generation and the checks of main (run\_search.py)\<close>

text \<open>
  \<^verbatim>\<open>build_dataset(n, rng)\<close>. The generator \<^verbatim>\<open>random.Random\<close> is a parameter: a state
  \<open>'g\<close> and a function \<open>randrange\<close> standing for \<^verbatim>\<open>rng.randrange(10**10)\<close>, which returns
  the number drawn and the next state. The \<^verbatim>\<open>while\<close> loop draws until \<open>n\<close> pairs are
  collected and need not end; a run that does not return is the value \<open>None\<close>.
\<close>

partial_function (option) build_loop ::
  "('g \<Rightarrow> int \<times> 'g) \<Rightarrow> nat \<Rightarrow> (int \<times> int) set \<Rightarrow> (int \<times> int) list \<Rightarrow> 'g
     \<Rightarrow> ((int \<times> int) list \<times> 'g) option" where
  "build_loop randrange n seen pairs g =
     (if length pairs < n then
        (case randrange g of (a, g1) \<Rightarrow>
           (case randrange g1 of (b, g2) \<Rightarrow>
              if (a, b) \<in> seen then build_loop randrange n seen pairs g2
              else build_loop randrange n (insert (a, b) seen) (pairs @ [(a, b)]) g2))
      else Some (pairs, g))"

declare build_loop.simps [code]

definition build_dataset ::
  "('g \<Rightarrow> int \<times> 'g) \<Rightarrow> nat \<Rightarrow> 'g \<Rightarrow> ((int \<times> int) list \<times> 'g) option" where
  "build_dataset randrange n rng = build_loop randrange n {} [] rng"

text \<open>
  The first part of \<^verbatim>\<open>main\<close>: the two datasets are built from two generators, then
  \<^verbatim>\<open>assert set(train_pairs).isdisjoint(set(val_pairs))\<close> and the two calls of
  \<^verbatim>\<open>validate_dataset\<close>. The sizes are 40000 and 4000 in the source.
\<close>

definition prepare ::
  "('g \<Rightarrow> int \<times> 'g) \<Rightarrow> nat \<Rightarrow> nat \<Rightarrow> 'g \<Rightarrow> 'g
     \<Rightarrow> (py_error + ((int \<times> int) list \<times> (int \<times> int) list)) option" where
  "prepare randrange n_train n_val rng_train rng_val =
     (case build_dataset randrange n_train rng_train of
        None \<Rightarrow> None
      | Some (train_pairs, _) \<Rightarrow>
          (case build_dataset randrange n_val rng_val of
             None \<Rightarrow> None
           | Some (val_pairs, _) \<Rightarrow>
               Some (if set train_pairs \<inter> set val_pairs \<noteq> {} then Inl AssertionError
                     else
                       (case validate_dataset train_pairs of
                          Inl e \<Rightarrow> Inl e
                        | Inr _ \<Rightarrow>
                            (case validate_dataset val_pairs of
                               Inl e \<Rightarrow> Inl e
                             | Inr _ \<Rightarrow> Inr (train_pairs, val_pairs))))))"

text \<open>
  The second part of \<^verbatim>\<open>main\<close>: every attempt is trained in turn on the same lists (the
  shuffles of one attempt are seen by the next), and the best summary is chosen.
\<close>

fun run_attempts ::
  "'st trainer \<Rightarrow> attempt list \<Rightarrow> (int \<times> int) list \<Rightarrow> (int \<times> int) list \<Rightarrow> 'st \<Rightarrow> summary list
     \<Rightarrow> py_error + (summary list \<times> 'st)" where
  "run_attempts tr [] train_pairs val_pairs st summaries = Inr (summaries, st)"
| "run_attempts tr (a # rest) train_pairs val_pairs st summaries =
     (case train_attempt tr a train_pairs val_pairs st of
        Inl e \<Rightarrow> Inl e
      | Inr (result, history, train_pairs, st) \<Rightarrow>
          run_attempts tr rest train_pairs val_pairs st (summaries @ [result]))"

definition main_with ::
  "'st trainer \<Rightarrow> attempt list \<Rightarrow> ('g \<Rightarrow> int \<times> 'g) \<Rightarrow> nat \<Rightarrow> nat \<Rightarrow> 'g \<Rightarrow> 'g \<Rightarrow> 'st
     \<Rightarrow> (py_error + (summary list \<times> summary \<times> 'st)) option" where
  "main_with tr attempts randrange n_train n_val rng_train rng_val st =
     (case prepare randrange n_train n_val rng_train rng_val of
        None \<Rightarrow> None
      | Some (Inl e) \<Rightarrow> Some (Inl e)
      | Some (Inr (train_pairs, val_pairs)) \<Rightarrow>
          Some (case run_attempts tr attempts train_pairs val_pairs st [] of
                  Inl e \<Rightarrow> Inl e
                | Inr (summaries, st) \<Rightarrow>
                    (case run_search_best summaries of
                       Inl e \<Rightarrow> Inl e
                     | Inr best \<Rightarrow> Inr (summaries, best, st))))"

definition attempts_of_main :: "attempt list" where
  "attempts_of_main =
     [\<lparr>name = ''a_d4_ff8'', d_model = 4, d_ff = 8, lr = 0.002, epochs = 12, batch_size = 256\<rparr>,
      \<lparr>name = ''b_d5_ff10'', d_model = 5, d_ff = 10, lr = 0.002, epochs = 12, batch_size = 256\<rparr>,
      \<lparr>name = ''c_d6_ff12'', d_model = 6, d_ff = 12, lr = 0.002, epochs = 12, batch_size = 256\<rparr>,
      \<lparr>name = ''d_d6_ff14'', d_model = 6, d_ff = 14, lr = 0.0015, epochs = 12, batch_size = 256\<rparr>,
      \<lparr>name = ''e_d6_ff16'', d_model = 6, d_ff = 16, lr = 0.0015, epochs = 12, batch_size = 256\<rparr>]"

definition main ::
  "'st trainer \<Rightarrow> ('g \<Rightarrow> int \<times> 'g) \<Rightarrow> 'g \<Rightarrow> 'g \<Rightarrow> 'st
     \<Rightarrow> (py_error + (summary list \<times> summary \<times> 'st)) option" where
  "main tr randrange rng_train rng_val st =
     main_with tr attempts_of_main randrange 40000 4000 rng_train rng_val st"

section \<open>The parameter budget in the two other searches\<close>

text \<open>
  \<^verbatim>\<open>nn.MultiheadAttention(d, num_heads=1)\<close> registers \<open>in_proj_weight\<close> of shape \<open>(3d, d)\<close>,
  \<open>in_proj_bias\<close> of shape \<open>(3d)\<close>, and the weight \<open>(d, d)\<close> and bias \<open>(d)\<close> of \<open>out_proj\<close>.
\<close>

definition nn_MultiheadAttention :: "nat \<Rightarrow> shape list" where
  "nn_MultiheadAttention d = [[3 * d, d], [3 * d], [d, d], [d]]"

subsection \<open>research/addition\_tiny/search\_tiny\_transformer.py\<close>

text \<open>
  The model \<^verbatim>\<open>M(d)\<close> over the 13 tokens \<^verbatim>\<open>0..9, C0, C1, CLS\<close>, the dataclass \<^verbatim>\<open>A\<close> (its
  fields prefixed with \<open>a_\<close>) and the entries of \<^verbatim>\<open>results\<close>.
\<close>

definition M :: "nat \<Rightarrow> shape list" where
  "M d =
     nn_Embedding 13 d
     @ nn_Embedding 4 d
     @ nn_LayerNorm d
     @ nn_MultiheadAttention d
     @ nn_LayerNorm d
     @ nn_Linear d 10
     @ nn_Linear d 2"

record A =
  a_name :: string
  a_d :: nat
  a_lr :: real
  a_steps :: nat

record column_result =
  cr_attempt :: A
  cr_params :: nat
  column_acc :: real
  full_10digit_acc :: real

text \<open>
  The loop over the attempts:
  \<^verbatim>\<open>m=M(a.d); p=params(m)\<close>, \<^verbatim>\<open>if p>=491: continue\<close>, then the optimizer, the training
  steps and the two evaluations, and \<^verbatim>\<open>results.append(...)\<close>. Training and evaluation
  are the parameter \<open>fit\<close>, which takes the state \<open>'w\<close> of everything they touch (random
  generators, the tracker) and returns the two accuracies and the new state.
\<close>

fun column_search ::
  "(A \<Rightarrow> 'w \<Rightarrow> (real \<times> real) \<times> 'w) \<Rightarrow> A list \<Rightarrow> 'w \<Rightarrow> column_result list
     \<Rightarrow> column_result list \<times> 'w" where
  "column_search fit [] w results = (results, w)"
| "column_search fit (a # rest) w results =
     (let p = count_params (M (a_d a)) in
      if p \<ge> 491 then column_search fit rest w results
      else
        (case fit a w of
           ((col, full), w') \<Rightarrow>
             column_search fit rest w'
               (results @ [\<lparr>cr_attempt = a, cr_params = p, column_acc = col,
                            full_10digit_acc = full\<rparr>])))"

subsection \<open>experiments/tiny\_addition\_search.py\<close>

text \<open>
  \<^verbatim>\<open>TinyAdditionTransformer(d_model, d_ff, n_layers)\<close> over 12 tokens and 32 positions, a
  configuration (the dict \<^verbatim>\<open>cfg\<close>, its keys prefixed with \<open>c_\<close>), and \<^verbatim>\<open>main\<close>: every
  configuration goes through \<^verbatim>\<open>run_attempt\<close>, which trains and evaluates it (the
  parameter \<open>fit\<close>: training loss and the two validation accuracies), and the results
  are filtered and sorted afterwards.
\<close>

definition TinyTransformerBlock :: "nat \<Rightarrow> nat \<Rightarrow> shape list" where
  "TinyTransformerBlock d f =
     nn_LayerNorm d
     @ nn_MultiheadAttention d
     @ nn_LayerNorm d
     @ nn_Linear d f
     @ nn_Linear f d"

definition TinyAdditionTransformer :: "nat \<Rightarrow> nat \<Rightarrow> nat \<Rightarrow> shape list" where
  "TinyAdditionTransformer d f n =
     nn_Embedding 12 d
     @ nn_Embedding 32 d
     @ concat (replicate n (TinyTransformerBlock d f))
     @ nn_LayerNorm d
     @ nn_Linear d 10"

record cfg =
  c_d_model :: nat
  c_d_ff :: nat
  c_n_layers :: nat

definition run_attempt ::
  "(cfg \<Rightarrow> 'w \<Rightarrow> (real \<times> real \<times> real) \<times> 'w) \<Rightarrow> cfg \<Rightarrow> 'w \<Rightarrow> AttemptResult \<times> 'w" where
  "run_attempt fit c w =
     (let n_par = count_params (TinyAdditionTransformer (c_d_model c) (c_d_ff c) (c_n_layers c))
      in (case fit c w of
            ((loss, val_tok, val_seq), w') \<Rightarrow>
              (\<lparr>r_d_model = c_d_model c, r_d_ff = c_d_ff c, r_n_layers = c_n_layers c,
                r_params = n_par, r_train_loss = loss, r_val_token_acc = val_tok,
                r_val_seq_acc = val_seq\<rparr>, w')))"

fun run_all ::
  "(cfg \<Rightarrow> 'w \<Rightarrow> (real \<times> real \<times> real) \<times> 'w) \<Rightarrow> cfg list \<Rightarrow> 'w \<Rightarrow> AttemptResult list
     \<Rightarrow> AttemptResult list \<times> 'w" where
  "run_all fit [] w results = (results, w)"
| "run_all fit (c # rest) w results =
     (case run_attempt fit c w of (result, w') \<Rightarrow> run_all fit rest w' (results @ [result]))"

definition search_main ::
  "(cfg \<Rightarrow> 'w \<Rightarrow> (real \<times> real \<times> real) \<times> 'w) \<Rightarrow> cfg list \<Rightarrow> 'w
     \<Rightarrow> (py_error + AttemptResult) \<times> AttemptResult list \<times> 'w" where
  "search_main fit attempts w =
     (case run_all fit attempts w [] of (results, w') \<Rightarrow> (select_valid results, results, w'))"

section \<open>The model of run\_search.py: TinyTransformer.forward\<close>

text \<open>
  Vectors and matrices of floats are lists of reals, a matrix the list of its rows. The
  parameters have the shapes that \<^verbatim>\<open>__init__\<close> gives them, so every product below is
  between matching shapes; PyTorch's shape errors, which cannot occur, are not modelled.
  The value \<^verbatim>\<open>float("-inf")\<close> of a masked score is \<open>None\<close>, and its exponential is \<open>0\<close>.
\<close>

type_synonym vec = "real list"
type_synonym mat = "real list list"

definition ncols :: "'a list list \<Rightarrow> nat" where
  "ncols A = (case A of [] \<Rightarrow> 0 | r # _ \<Rightarrow> length r)"

definition dot :: "vec \<Rightarrow> vec \<Rightarrow> real" where
  "dot a b = sum_list (map (\<lambda>(x, y). x * y) (zip a b))"

text \<open>\<^verbatim>\<open>A @ B\<close>, and \<^verbatim>\<open>A.transpose(-2, -1)\<close> (also \<^verbatim>\<open>A.T\<close>).\<close>

definition matmul :: "mat \<Rightarrow> mat \<Rightarrow> mat" where
  "matmul A B =
     map (\<lambda>a. map (\<lambda>c. sum_list (map (\<lambda>(w, row). w * row ! c) (zip a B))) [0..<ncols B]) A"

definition transpose_m :: "mat \<Rightarrow> mat" where
  "transpose_m A = map (\<lambda>c. map (\<lambda>row. row ! c) A) [0..<ncols A]"

text \<open>
  \<^verbatim>\<open>nn.Embedding\<close> (a token outside the table raises IndexError), \<^verbatim>\<open>nn.Linear\<close>
  (\<open>y = W x + b\<close>) and \<^verbatim>\<open>nn.LayerNorm\<close> (mean and biased variance over the vector,
  \<open>eps = 1e-5\<close>), the last two on one position.
\<close>

definition embedding :: "mat \<Rightarrow> nat list \<Rightarrow> py_error + mat" where
  "embedding W x = (if \<forall>t \<in> set x. t < length W then Inr (map (\<lambda>t. W ! t) x) else Inl IndexError)"

definition apply_linear :: "mat \<Rightarrow> vec \<Rightarrow> vec \<Rightarrow> vec" where
  "apply_linear W b x = map (\<lambda>(row, c). dot row x + c) (zip W b)"

definition layer_norm :: "vec \<Rightarrow> vec \<Rightarrow> vec \<Rightarrow> vec" where
  "layer_norm w b x =
     (let n = real (length x);
          mu = sum_list x / n;
          var = sum_list (map (\<lambda>y. (y - mu)\<^sup>2) x) / n
      in map (\<lambda>(y, g, c). (y - mu) / sqrt (var + 1 / 100000) * g + c) (zip x (zip w b)))"

text \<open>
  \<^verbatim>\<open>torch.triu(torch.ones(n, m), diagonal=1).bool()\<close>, \<^verbatim>\<open>masked_fill(mask, float("-inf"))\<close>,
  \<^verbatim>\<open>F.softmax(att, dim=-1)\<close> on one row, and the sum of two matrices.
\<close>

definition triu_mask :: "nat \<Rightarrow> nat \<Rightarrow> bool list list" where
  "triu_mask n m = map (\<lambda>i. map (\<lambda>j. i + 1 \<le> j) [0..<m]) [0..<n]"

definition masked_fill :: "mat \<Rightarrow> bool list list \<Rightarrow> real option list list" where
  "masked_fill att msk =
     map (\<lambda>(row, mrow). map (\<lambda>(s, b). if b then None else Some s) (zip row mrow)) (zip att msk)"

definition softmax :: "real option list \<Rightarrow> vec" where
  "softmax row =
     (let e = map (\<lambda>s. case s of None \<Rightarrow> 0 | Some a \<Rightarrow> exp a) row;
          z = sum_list e
      in map (\<lambda>y. y / z) e)"

definition madd :: "mat \<Rightarrow> mat \<Rightarrow> mat" where
  "madd A B = map (\<lambda>(a, b). map (\<lambda>(x, y). x + y) (zip a b)) (zip A B)"

text \<open>
  The weights of \<^verbatim>\<open>TinyTransformer\<close>, module by module. \<^verbatim>\<open>F.gelu\<close>, applied entry by
  entry, is a parameter as well.
\<close>

record weights =
  tok_emb :: mat
  ln1_weight :: vec
  ln1_bias :: vec
  q_weight :: mat
  q_bias :: vec
  k_weight :: mat
  k_bias :: vec
  v_weight :: mat
  v_bias :: vec
  proj_weight :: mat
  proj_bias :: vec
  ln2_weight :: vec
  ln2_bias :: vec
  fc1_weight :: mat
  fc1_bias :: vec
  fc2_weight :: mat
  fc2_bias :: vec
  ln_f_weight :: vec
  ln_f_bias :: vec
  gelu :: "real \<Rightarrow> real"

text \<open>
  The attention of \<^verbatim>\<open>forward\<close>:
  \<^verbatim>\<open>att = (q @ k.transpose(-2, -1)) / math.sqrt(q.size(-1))\<close>, the mask, the softmax and
  \<^verbatim>\<open>att @ v\<close>.
\<close>

definition attention :: "mat \<Rightarrow> mat \<Rightarrow> mat \<Rightarrow> mat" where
  "attention q k v =
     (let att = map (map (\<lambda>s. s / sqrt (real (ncols q)))) (matmul q (transpose_m k));
          msk = triu_mask (length att) (ncols att);
          att = masked_fill att msk;
          att = map softmax att
      in matmul att v)"

text \<open>\<^verbatim>\<open>forward\<close> on one sequence of token ids; a batch is treated row by row.\<close>

definition forward_seq :: "weights \<Rightarrow> nat list \<Rightarrow> py_error + mat" where
  "forward_seq P x =
     (case embedding (tok_emb P) x of
        Inl e \<Rightarrow> Inl e
      | Inr h \<Rightarrow>
          Inr (let r = h;
                   h = map (layer_norm (ln1_weight P) (ln1_bias P)) h;
                   q = map (apply_linear (q_weight P) (q_bias P)) h;
                   k = map (apply_linear (k_weight P) (k_bias P)) h;
                   v = map (apply_linear (v_weight P) (v_bias P)) h;
                   h = map (apply_linear (proj_weight P) (proj_bias P)) (attention q k v);
                   h = madd r h;
                   r2 = h;
                   h = map (layer_norm (ln2_weight P) (ln2_bias P)) h;
                   h = map (apply_linear (fc2_weight P) (fc2_bias P))
                         (map (map (gelu P)) (map (apply_linear (fc1_weight P) (fc1_bias P)) h));
                   h = madd r2 h;
                   h = map (layer_norm (ln_f_weight P) (ln_f_bias P)) h;
                   logits = matmul h (transpose_m (tok_emb P))
               in logits))"


section \<open>The model of tiny\_addition\_search.py: TinyAdditionTransformer.forward\<close>

text \<open>
  The weights of a \<^verbatim>\<open>TinyTransformerBlock\<close> and of the \<^verbatim>\<open>TinyAdditionTransformer\<close>.
  \<^verbatim>\<open>nn.MultiheadAttention\<close> with one head keeps the three input projections stacked in
  \<open>in_proj_weight\<close> and \<open>in_proj_bias\<close> (query, key, value, in this order).
\<close>

record block_weights =
  b_ln1_weight :: vec
  b_ln1_bias :: vec
  in_proj_weight :: mat
  in_proj_bias :: vec
  out_proj_weight :: mat
  out_proj_bias :: vec
  b_ln2_weight :: vec
  b_ln2_bias :: vec
  ff1_weight :: mat
  ff1_bias :: vec
  ff2_weight :: mat
  ff2_bias :: vec

record encoder_weights =
  token_embed :: mat
  pos_embed :: mat
  blocks :: "block_weights list"
  final_ln_weight :: vec
  final_ln_bias :: vec
  head_weight :: mat
  head_bias :: vec

text \<open>
  \<^verbatim>\<open>self.attn(h, h, h, need_weights=False)\<close>: the scores \<open>q k\<^sup>T / sqrt d\<close> go through the
  softmax as they are, since no \<^verbatim>\<open>attn_mask\<close> is passed; then the output projection.
\<close>

definition self_attention :: "block_weights \<Rightarrow> mat \<Rightarrow> mat" where
  "self_attention B h =
     (let d = length (in_proj_weight B) div 3;
          q = map (apply_linear (take d (in_proj_weight B)) (take d (in_proj_bias B))) h;
          k = map (apply_linear (take d (drop d (in_proj_weight B))) (take d (drop d (in_proj_bias B)))) h;
          v = map (apply_linear (drop (2 * d) (in_proj_weight B)) (drop (2 * d) (in_proj_bias B))) h;
          att = map (map (\<lambda>s. s / sqrt (real d))) (matmul q (transpose_m k));
          att = map (\<lambda>row. softmax (map Some row)) att
      in map (apply_linear (out_proj_weight B) (out_proj_bias B)) (matmul att v))"

definition relu :: "real \<Rightarrow> real" where
  "relu y = max 0 y"

definition block_forward :: "block_weights \<Rightarrow> mat \<Rightarrow> mat" where
  "block_forward B x =
     (let h = map (layer_norm (b_ln1_weight B) (b_ln1_bias B)) x;
          attn_out = self_attention B h;
          x = madd x attn_out;
          h = map (layer_norm (b_ln2_weight B) (b_ln2_bias B)) x;
          x = madd x (map (apply_linear (ff2_weight B) (ff2_bias B))
                       (map (map relu) (map (apply_linear (ff1_weight B) (ff1_bias B)) h)))
      in x)"

text \<open>
  \<^verbatim>\<open>TinyAdditionTransformer.forward\<close> on one sequence: the sum with the 32 position
  embeddings needs a sequence of 32 tokens; the blocks; the final norm and the head on
  the first \<open>OUT_LEN = 11\<close> positions.
\<close>

definition encoder_forward :: "encoder_weights \<Rightarrow> nat list \<Rightarrow> py_error + mat" where
  "encoder_forward P x =
     (if length x \<noteq> 32 then Inl RuntimeError
      else
        (case embedding (token_embed P) x of
           Inl e \<Rightarrow> Inl e
         | Inr te \<Rightarrow>
             (case embedding (pos_embed P) [0..<32] of
                Inl e \<Rightarrow> Inl e
              | Inr pe \<Rightarrow>
                  Inr (let h = madd te pe;
                           h = foldl (\<lambda>h B. block_forward B h) h (blocks P);
                           h = map (layer_norm (final_ln_weight P) (final_ln_bias P)) (take 11 h)
                       in map (apply_linear (head_weight P) (head_bias P)) h))))"

section \<open>The codec: encode followed by decode\<close>

text \<open>Auxiliary notions for the proofs: decimal digit characters and their token ids.\<close>

definition is_digit :: "char \<Rightarrow> bool" where
  "is_digit c = (digit_val c \<noteq> None)"

lemma digit_val_digit_char: "d < 10 \<Longrightarrow> digit_val (digit_char d) = Some d"
  by (simp add: digit_val_def digit_char_def Let_def)

lemma is_digit_digit_char: "d < 10 \<Longrightarrow> is_digit (digit_char d)"
  by (simp add: is_digit_def digit_val_digit_char)

lemma digit_char_zero: "CHR ''0'' = digit_char 0"
  by code_simp

lemma is_digit_zero: "is_digit (CHR ''0'')"
  by (simp add: digit_char_zero is_digit_digit_char)

lemma is_digit_cases:
  assumes "is_digit c"
  obtains d where "d < 10" "c = digit_char d"
proof -
  let ?k = "of_char c :: nat"
  from assms have k: "48 \<le> ?k" "?k \<le> 57"
    by (auto simp: is_digit_def digit_val_def Let_def split: if_splits)
  have "c = char_of ?k" by simp
  also have "?k = 48 + (?k - 48)" using k by simp
  finally have "c = digit_char (?k - 48)" by (simp only: digit_char_def)
  moreover have "?k - 48 < 10" using k by simp
  ultimately show thesis using that by blast
qed

lemma parse_digits_append:
  "parse_digits acc (xs @ ys) =
     (case parse_digits acc xs of None \<Rightarrow> None | Some a \<Rightarrow> parse_digits a ys)"
  by (induction xs arbitrary: acc) (auto split: option.splits)

lemma parse_digits_str_nat: "parse_digits 0 (str_nat n) = Some n"
proof (induction n rule: str_nat.induct)
  case (1 n)
  show ?case
  proof (cases "n < 10")
    case True
    then show ?thesis by (simp add: str_nat.simps [of n] digit_val_digit_char)
  next
    case False
    with 1 have "parse_digits 0 (str_nat (n div 10)) = Some (n div 10)" by simp
    with False show ?thesis
      by (simp add: str_nat.simps [of n] parse_digits_append digit_val_digit_char)
  qed
qed

lemma parse_digits_zeros: "parse_digits 0 (replicate k (CHR ''0'')) = Some 0"
  by (induction k) (simp_all add: digit_char_zero digit_val_digit_char)

lemma str_nat_nonempty: "str_nat n \<noteq> []"
  by (subst str_nat.simps) simp

lemma parse_nat_zfill: "parse_nat (zfill w (str_nat n)) = Some n"
  by (simp add: parse_nat_def zfill_def parse_digits_append parse_digits_zeros
      parse_digits_str_nat str_nat_nonempty)

lemma length_str_nat: "n < 10 ^ k \<Longrightarrow> 0 < k \<Longrightarrow> length (str_nat n) \<le> k"
proof (induction n arbitrary: k rule: str_nat.induct)
  case (1 n)
  show ?case
  proof (cases "n < 10")
    case True
    with 1 show ?thesis by (simp add: str_nat.simps [of n])
  next
    case False
    obtain j where j: "k = Suc j" using "1.prems" by (cases k) auto
    have "j \<noteq> 0" using False "1.prems" j by (cases j) auto
    moreover have "n div 10 < 10 ^ j" using "1.prems" j by (simp add: less_mult_imp_div_less mult.commute)
    ultimately have "length (str_nat (n div 10)) \<le> j" using "1.IH" [of j] False by simp
    with False j show ?thesis by (simp add: str_nat.simps [of n])
  qed
qed

lemma length_zfill: "length s \<le> w \<Longrightarrow> length (zfill w s) = w"
  by (simp add: zfill_def)


lemma str_nat_digits: "\<forall>c \<in> set (str_nat n). is_digit c"
proof (induction n rule: str_nat.induct)
  case (1 n)
  show ?case
  proof (cases "n < 10")
    case True
    then show ?thesis by (simp add: str_nat.simps [of n] is_digit_digit_char)
  next
    case False
    with 1 show ?thesis by (simp add: str_nat.simps [of n] is_digit_digit_char)
  qed
qed

lemma zfill_digits: "\<forall>c \<in> set s. is_digit c \<Longrightarrow> \<forall>c \<in> set (zfill w s). is_digit c"
  by (auto simp: zfill_def is_digit_zero)


lemma STOI_digits_all: "\<forall>d \<in> set [0..<10]. STOI [digit_char d] = Some (4 + d)"
  by code_simp

lemma ITOS_digits_all: "\<forall>d \<in> set [0..<10]. ITOS (4 + d) = Some [digit_char d]"
  by code_simp

lemma STOI_digit_char: "d < 10 \<Longrightarrow> STOI [digit_char d] = Some (4 + d)"
  using STOI_digits_all by simp

lemma ITOS_digit_char: "d < 10 \<Longrightarrow> ITOS (4 + d) = Some [digit_char d]"
  using ITOS_digits_all by simp

lemma STOI_specials:
  "STOI ''<bos>'' = Some 0" "STOI ''+'' = Some 1" "STOI ''='' = Some 2" "STOI ''<eos>'' = Some 3"
  by code_simp+

lemma ITOS_specials:
  "ITOS 0 = Some ''<bos>''" "ITOS (Suc 0) = Some ''+''" "ITOS 2 = Some ''=''"
  "ITOS 3 = Some ''<eos>''"
  by code_simp+


definition digit_id :: "char \<Rightarrow> nat" where
  "digit_id c = of_char c - 44"

lemma lookup_all_append:
  "lookup_all m (xs @ ys) =
     (case lookup_all m xs of
        Inl e \<Rightarrow> Inl e
      | Inr vs \<Rightarrow> (case lookup_all m ys of Inl e \<Rightarrow> Inl e | Inr ws \<Rightarrow> Inr (vs @ ws)))"
  by (induction xs) (auto split: option.splits sum.splits)

lemma digit_id_digit_char: "d < 10 \<Longrightarrow> digit_id (digit_char d) = 4 + d"
  by (simp add: digit_id_def digit_char_def)

lemma STOI_is_digit: "is_digit c \<Longrightarrow> STOI [c] = Some (digit_id c)"
  by (erule is_digit_cases) (simp add: STOI_digit_char digit_id_digit_char)

lemma ITOS_is_digit: "is_digit c \<Longrightarrow> ITOS (digit_id c) = Some [c]"
  by (erule is_digit_cases) (simp add: ITOS_digit_char digit_id_digit_char)

lemma lookup_STOI_chars:
  "\<forall>c \<in> set s. is_digit c \<Longrightarrow> lookup_all STOI (chars s) = Inr (map digit_id s)"
  by (induction s) (simp_all add: chars_def STOI_is_digit)

lemma lookup_ITOS_digit_ids:
  "\<forall>c \<in> set s. is_digit c \<Longrightarrow> lookup_all ITOS (map digit_id s) = Inr (chars s)"
  by (induction s) (simp_all add: chars_def ITOS_is_digit)

lemma concat_chars: "concat (chars s) = s"
  by (induction s) (simp_all add: chars_def)

lemma length_chars: "length (chars s) = length s"
  by (simp add: chars_def)

lemma not_digit_sign: "\<not> is_digit (CHR ''-'')" "\<not> is_digit (CHR ''+'')" "\<not> is_digit (CHR ''='')"
  by (simp_all add: is_digit_def digit_val_def)

lemma py_int_digits:
  assumes "\<forall>c \<in> set s. is_digit c" and "parse_nat s = Some n"
  shows "py_int s = Inr (int n)"
proof (cases s)
  case Nil
  with assms(2) show ?thesis by (simp add: parse_nat_def)
next
  case (Cons c cs)
  with assms(1) have "is_digit c" by simp
  then have "c \<noteq> CHR ''-''" "c \<noteq> CHR ''+''" using not_digit_sign by auto
  with Cons assms(2) show ?thesis by (simp add: py_int_def)
qed

lemma format_d_nonneg:
  assumes "0 \<le> n" "n < 10 ^ w" "0 < w"
  shows "length (format_d w n) = w"
    and "\<forall>c \<in> set (format_d w n). is_digit c"
    and "py_int (format_d w n) = Inr n"
proof -
  have f: "format_d w n = zfill w (str_nat (nat n))" using assms(1) by (simp add: format_d_def)
  have "nat n < 10 ^ w" using assms(1,2) by (simp add: nat_less_iff)
  then have "length (str_nat (nat n)) \<le> w" using assms(3) by (rule length_str_nat)
  then show "length (format_d w n) = w" by (simp add: f length_zfill)
  show d: "\<forall>c \<in> set (format_d w n). is_digit c"
    unfolding f by (rule zfill_digits) (rule str_nat_digits)
  have "parse_nat (format_d w n) = Some (nat n)" by (simp add: f parse_nat_zfill)
  with d have "py_int (format_d w n) = Inr (int (nat n))" by (rule py_int_digits)
  then show "py_int (format_d w n) = Inr n" using assms(1) by simp
qed

text \<open>The layout of a token list built from three digit strings of the fixed widths.\<close>

definition layout :: "string \<Rightarrow> string \<Rightarrow> string \<Rightarrow> string list" where
  "layout A B C = [''<bos>''] @ chars A @ [''+''] @ chars B @ [''=''] @ chars C @ [''<eos>'']"

definition layout_ids :: "string \<Rightarrow> string \<Rightarrow> string \<Rightarrow> nat list" where
  "layout_ids A B C = [0] @ map digit_id A @ [1] @ map digit_id B @ [2] @ map digit_id C @ [3]"

lemma encode_toks_layout:
  "encode_toks a b = layout (rev (format_d 10 a)) (rev (format_d 10 b)) (rev (format_d 11 (a + b)))"
  by (simp add: encode_toks_def layout_def Let_def)

lemma layout_STOI:
  assumes "\<forall>c \<in> set A. is_digit c" "\<forall>c \<in> set B. is_digit c" "\<forall>c \<in> set C. is_digit c"
  shows "lookup_all STOI (layout A B C) = Inr (layout_ids A B C)"
  using assms
  by (simp add: layout_def layout_ids_def lookup_all_append lookup_STOI_chars STOI_specials)

lemma layout_ITOS:
  assumes "\<forall>c \<in> set A. is_digit c" "\<forall>c \<in> set B. is_digit c" "\<forall>c \<in> set C. is_digit c"
  shows "lookup_all ITOS (layout_ids A B C) = Inr (layout A B C)"
  using assms
  by (simp add: layout_def layout_ids_def lookup_all_append lookup_ITOS_digit_ids ITOS_specials)

lemma layout_slices:
  assumes "length A = 10" "length B = 10" "length C = 11"
  shows "slice (Suc 0) 11 (layout A B C) = chars A"
    and "slice 12 22 (layout A B C) = chars B"
    and "slice 23 34 (layout A B C) = chars C"
    and "length (layout A B C) = 35"
  using assms by (simp_all add: layout_def slice_def length_chars)

lemma index_of_append:
  "x \<notin> set xs \<Longrightarrow> index_of x (xs @ x # ys) = Inr (length xs)"
  by (induction xs) auto

lemma eq_tok_notin_chars: "\<forall>c \<in> set s. is_digit c \<or> c = CHR ''-'' \<Longrightarrow> ''='' \<notin> set (chars s)"
  using not_digit_sign(3) by (auto simp: chars_def)

lemma layout_index_eq:
  assumes "\<forall>c \<in> set A. is_digit c \<or> c = CHR ''-''" "\<forall>c \<in> set B. is_digit c \<or> c = CHR ''-''"
  shows "index_of ''='' (layout A B C) = Inr (length A + length B + 2)"
proof -
  let ?pre = "[''<bos>''] @ chars A @ [''+''] @ chars B"
  have "''='' \<notin> set ?pre" using assms by (simp add: eq_tok_notin_chars)
  then have "index_of ''='' (?pre @ ''='' # (chars C @ [''<eos>''])) = Inr (length ?pre)"
    by (rule index_of_append)
  then show ?thesis by (simp add: layout_def length_chars)
qed




lemma fill_from_mask: "fill_from 23 (1::real) (replicate 35 0) = replicate 23 0 @ replicate 12 1"
  by (simp add: fill_from_def)

lemma lookup_all_length: "lookup_all m ks = Inr vs \<Longrightarrow> length vs = length ks"
  by (induction ks arbitrary: vs) (auto split: option.splits sum.splits)


lemma encode_example_in_range:
  assumes "0 \<le> a" "a < 10 ^ 10" "0 \<le> b" "b < 10 ^ 10"
  defines "A \<equiv> rev (format_d 10 a)" and "B \<equiv> rev (format_d 10 b)"
    and "C \<equiv> rev (format_d 11 (a + b))"
  shows "encode_example a b = Inr (layout_ids A B C, layout_ids A B C, replicate 23 0 @ replicate 12 1)"
    and "lookup_all ITOS (layout_ids A B C) = Inr (layout A B C)"
    and "decode_region (layout A B C) (Suc 0) 11 = Inr a"
    and "decode_region (layout A B C) 12 22 = Inr b"
    and "decode_region (layout A B C) 23 34 = Inr (a + b)"
proof -
  have c: "0 \<le> a + b" "a + b < 10 ^ 11" using assms(1-4) by simp_all
  note fa = format_d_nonneg [OF assms(1,2)] and fb = format_d_nonneg [OF assms(3,4)]
    and fc = format_d_nonneg [OF c]
  have dA: "\<forall>c \<in> set A. is_digit c" and dB: "\<forall>c \<in> set B. is_digit c"
    and dC: "\<forall>c \<in> set C. is_digit c"
    using fa(2) fb(2) fc(2) by (simp_all add: A_def B_def C_def)
  have lA: "length A = 10" and lB: "length B = 10" and lC: "length C = 11"
    using fa(1) fb(1) fc(1) by (simp_all add: A_def B_def C_def)
  note sl = layout_slices [OF lA lB lC]
  have st: "lookup_all STOI (layout A B C) = Inr (layout_ids A B C)"
    using dA dB dC by (rule layout_STOI)
  have idx: "index_of ''='' (layout A B C) = Inr 22"
    using layout_index_eq [of A B C] dA dB lA lB by simp
  have li: "length (layout_ids A B C) = 35"
    using lookup_all_length [OF st] sl(4) by simp
  have "encode_toks a b = layout A B C" by (simp add: encode_toks_layout A_def B_def C_def)
  then show "encode_example a b
      = Inr (layout_ids A B C, layout_ids A B C, replicate 23 0 @ replicate 12 1)"
    using sl(4) st idx li fill_from_mask by (simp add: encode_example_def Let_def SEQ_LEN_def)
  show "lookup_all ITOS (layout_ids A B C) = Inr (layout A B C)"
    using dA dB dC by (rule layout_ITOS)
  show "decode_region (layout A B C) (Suc 0) 11 = Inr a"
    using fa(3) by (simp add: decode_region_def sl concat_chars) (simp add: A_def)
  show "decode_region (layout A B C) 12 22 = Inr b"
    using fb(3) by (simp add: decode_region_def sl concat_chars) (simp add: B_def)
  show "decode_region (layout A B C) 23 34 = Inr (a + b)"
    using fc(3) by (simp add: decode_region_def sl concat_chars) (simp add: C_def)
qed

text \<open>
  Claim C1. For all integers \<open>a\<close>, \<open>b\<close> with \<open>0 \<le> a, b < 10^10\<close>, \<^verbatim>\<open>encode_example(a, b)\<close>
  returns, and decoding its token ids as \<^verbatim>\<open>validate_dataset\<close> does (the regions
  \<^verbatim>\<open>[1:11]\<close>, \<^verbatim>\<open>[12:22]\<close> and \<^verbatim>\<open>[23:34]\<close>, joined, reversed and parsed) gives back
  exactly \<open>a\<close>, \<open>b\<close> and \<open>a + b\<close>; so the integrity check of the example passes.
\<close>

theorem encode_decode_roundtrip:
  assumes "0 \<le> a" "a < 10 ^ 10" "0 \<le> b" "b < 10 ^ 10"
  shows "\<exists>ids target msk toks.
           encode_example a b = Inr (ids, target, msk) \<and>
           lookup_all ITOS ids = Inr toks \<and>
           decode_region toks 1 11 = Inr a \<and>
           decode_region toks 12 22 = Inr b \<and>
           decode_region toks 23 34 = Inr (a + b) \<and>
           validate_example a b = Inr ()"
proof -
  note e = encode_example_in_range [OF assms]
  let ?ids = "layout_ids (rev (format_d 10 a)) (rev (format_d 10 b)) (rev (format_d 11 (a + b)))"
  let ?toks = "layout (rev (format_d 10 a)) (rev (format_d 10 b)) (rev (format_d 11 (a + b)))"
  have v: "validate_example a b = Inr ()"
    by (simp add: validate_example_def e)
  have "encode_example a b = Inr (?ids, ?ids, replicate 23 0 @ replicate 12 1) \<and>
        lookup_all ITOS ?ids = Inr ?toks \<and>
        decode_region ?toks 1 11 = Inr a \<and>
        decode_region ?toks 12 22 = Inr b \<and>
        decode_region ?toks 23 34 = Inr (a + b) \<and>
        validate_example a b = Inr ()"
    using e v by simp
  then show ?thesis by blast
qed

theorem encode_decode_roundtrip_witness:
  "\<exists>ids target msk toks.
     encode_example 1 2 = Inr (ids, target, msk) \<and>
     lookup_all ITOS ids = Inr toks \<and>
     decode_region toks 1 11 = Inr 1 \<and>
     decode_region toks 12 22 = Inr 2 \<and>
     decode_region toks 23 34 = Inr 3 \<and>
     validate_example 1 2 = Inr ()"
  using encode_decode_roundtrip [of 1 2] by simp

section \<open>Parameter count\<close>

lemma VOCAB_14: "VOCAB = 14"
  by (simp add: VOCAB_def TOKENS_def DIGITS_def)

text \<open>
  Claim C2. For every embedding width \<open>d \<ge> 1\<close> and feed-forward width \<open>f \<ge> 1\<close>, counting
  the parameters of \<^verbatim>\<open>TinyTransformer(d, f)\<close> one tensor at a time gives the closed form
  \<open>4 d\<^sup>2 + 2 d f + 25 d + f\<close>; for \<open>d = 4\<close>, \<open>f = 8\<close> the count is 236.
\<close>

theorem count_params_closed_form:
  assumes "1 \<le> d" and "1 \<le> f"
  shows "count_params (TinyTransformer d f) = 4 * d\<^sup>2 + 2 * d * f + 25 * d + f
         \<and> count_params (TinyTransformer 4 8) = 236"
  by (simp add: count_params_def TinyTransformer_def nn_Embedding_def nn_LayerNorm_def
      nn_Linear_def numel_def VOCAB_14 power2_eq_square algebra_simps)

theorem count_params_closed_form_witness:
  "(1::nat) \<le> 4 \<and> (1::nat) \<le> 8 \<and> count_params (TinyTransformer 4 8) = 4 * 4\<^sup>2 + 2 * 4 * 8 + 25 * 4 + 8
   \<and> count_params (TinyTransformer 4 8) = 236"
  using count_params_closed_form [of 4 8] by simp

section \<open>What the selection selects\<close>

lemma foldl_max_key:
  fixes key :: "'a \<Rightarrow> 'k::linorder"
  defines "step \<equiv> (\<lambda>best y. if key best < key y then y else best)"
  shows "foldl step b ys \<in> set (b # ys) \<and> key b \<le> key (foldl step b ys)
         \<and> (\<forall>y \<in> set ys. key y \<le> key (foldl step b ys))"
proof (induction ys arbitrary: b)
  case Nil
  show ?case by simp
next
  case (Cons y ys)
  from Cons [of "step b y"] show ?case
    by (auto simp: step_def split: if_splits)
qed

lemma foldl_min_key:
  fixes key :: "'a \<Rightarrow> 'k::linorder"
  defines "step \<equiv> (\<lambda>best y. if key y < key best then y else best)"
  shows "foldl step b ys \<in> set (b # ys) \<and> key (foldl step b ys) \<le> key b
         \<and> (\<forall>y \<in> set ys. key (foldl step b ys) \<le> key y)"
proof (induction ys arbitrary: b)
  case Nil
  show ?case by simp
next
  case (Cons y ys)
  from Cons [of "step b y"] show ?case
    by (auto simp: step_def split: if_splits)
qed

lemma py_max_greatest:
  assumes "py_max key xs = Inr m"
  shows "m \<in> set xs" and "\<forall>x \<in> set xs. key x \<le> key m"
proof -
  from assms obtain b ys where xs: "xs = b # ys" by (cases xs) auto
  with assms have m: "m = foldl (\<lambda>best y. if key best < key y then y else best) b ys" by simp
  show "m \<in> set xs" using foldl_max_key [of key b ys] by (simp add: xs m)
  show "\<forall>x \<in> set xs. key x \<le> key m" using foldl_max_key [of key b ys] by (simp add: xs m)
qed

lemma py_min_least:
  assumes "py_min key xs = Inr m"
  shows "m \<in> set xs" and "\<forall>x \<in> set xs. key m \<le> key x"
proof -
  from assms obtain b ys where xs: "xs = b # ys" by (cases xs) auto
  with assms have m: "m = foldl (\<lambda>best y. if key y < key best then y else best) b ys" by simp
  show "m \<in> set xs" using foldl_min_key [of key b ys] by (simp add: xs m)
  show "\<forall>x \<in> set xs. key m \<le> key x" using foldl_min_key [of key b ys] by (simp add: xs m)
qed

lemma sort_key_head_least:
  assumes "sort_key key xs = h # t"
  shows "h \<in> set xs" and "\<forall>x \<in> set xs. key h \<le> key x"
proof -
  have s: "set (h # t) = set xs" using assms [symmetric] by simp
  then show "h \<in> set xs" by auto
  have "sorted (map key (h # t))" using assms [symmetric] by simp
  then have "\<forall>x \<in> set t. key h \<le> key x" by simp
  with s show "\<forall>x \<in> set xs. key h \<le> key x" by auto
qed

lemma select_valid_best:
  assumes "select_valid results = Inr selected"
  shows "selected \<in> set results" and "r_params selected < 491"
    and "\<forall>r \<in> set results. r_params r < 491 \<longrightarrow>
           r_val_seq_acc r < r_val_seq_acc selected
           \<or> (r_val_seq_acc r = r_val_seq_acc selected \<and> r_params selected \<le> r_params r)"
proof -
  let ?valid = "filter (\<lambda>r. r_params r < 491) results"
  let ?key = "\<lambda>r. (- r_val_seq_acc r, r_params r)"
  from assms obtain t where srt: "sort_key ?key ?valid = selected # t"
    by (auto simp: select_valid_def Let_def split: list.splits)
  note h = sort_key_head_least [OF srt]
  from h(1) show "selected \<in> set results" and "r_params selected < 491" by simp_all
  show "\<forall>r \<in> set results. r_params r < 491 \<longrightarrow>
           r_val_seq_acc r < r_val_seq_acc selected
           \<or> (r_val_seq_acc r = r_val_seq_acc selected \<and> r_params selected \<le> r_params r)"
  proof (intro ballI impI)
    fix r assume "r \<in> set results" "r_params r < 491"
    then have "?key selected \<le> ?key r" using h(2) by simp
    then show "r_val_seq_acc r < r_val_seq_acc selected
           \<or> (r_val_seq_acc r = r_val_seq_acc selected \<and> r_params selected \<le> r_params r)"
      by (auto simp: less_eq_prod_def)
  qed
qed

text \<open>
  Claim C3, as stated, fails on both searches: on the three attempts with parameter
  counts and accuracies (200, 0.80), (300, 0.999), (450, 1.0), \<^verbatim>\<open>main\<close> of run\_search.py
  and \<^verbatim>\<open>main\<close> of tiny\_addition\_search.py both select the 450-parameter attempt.
\<close>

theorem selection_counterexample:
  "run_search_best
     [\<lparr>attempt_name = ''a'', params = 200, best_val_seq_acc = 0.80\<rparr>,
      \<lparr>attempt_name = ''b'', params = 300, best_val_seq_acc = 0.999\<rparr>,
      \<lparr>attempt_name = ''c'', params = 450, best_val_seq_acc = 1.0\<rparr>]
     = Inr \<lparr>attempt_name = ''c'', params = 450, best_val_seq_acc = 1.0\<rparr>
   \<and> select_valid
     [\<lparr>r_d_model = 3, r_d_ff = 8, r_n_layers = 1, r_params = 200, r_train_loss = 0.5,
         r_val_token_acc = 0.9, r_val_seq_acc = 0.80\<rparr>,
      \<lparr>r_d_model = 4, r_d_ff = 8, r_n_layers = 1, r_params = 300, r_train_loss = 0.1,
         r_val_token_acc = 0.9999, r_val_seq_acc = 0.999\<rparr>,
      \<lparr>r_d_model = 5, r_d_ff = 4, r_n_layers = 1, r_params = 450, r_train_loss = 0.1,
         r_val_token_acc = 1.0, r_val_seq_acc = 1.0\<rparr>]
     = Inr \<lparr>r_d_model = 5, r_d_ff = 4, r_n_layers = 1, r_params = 450, r_train_loss = 0.1,
         r_val_token_acc = 1.0, r_val_seq_acc = 1.0\<rparr>"
  by (simp add: run_search_best_def select_valid_def)

text \<open>
  Claim C3, amended. \<^verbatim>\<open>main\<close> of run\_search.py selects an attempt of the highest best
  validation sequence accuracy; \<^verbatim>\<open>main\<close> of tiny\_addition\_search.py selects, among the
  attempts with fewer than 491 parameters, one of the highest validation sequence
  accuracy, and among those of that accuracy one with the fewest parameters. The attempt
  with the fewest parameters among those under the budget whose accuracy is at least
  0.999 is what generate\_report.py selects from the summaries of run\_search.py.
\<close>

theorem selection_prefers_accuracy:
  "(run_search_best summaries = Inr best \<longrightarrow>
      best \<in> set summaries
      \<and> (\<forall>s \<in> set summaries. best_val_seq_acc s \<le> best_val_seq_acc best))
   \<and> (select_valid results = Inr selected \<longrightarrow>
      selected \<in> set results \<and> r_params selected < 491
      \<and> (\<forall>r \<in> set results. r_params r < 491 \<longrightarrow>
            r_val_seq_acc r < r_val_seq_acc selected
            \<or> (r_val_seq_acc r = r_val_seq_acc selected \<and> r_params selected \<le> r_params r)))
   \<and> (generate_report_best summaries = Inr chosen \<longrightarrow>
      chosen \<in> set summaries \<and> params chosen < 491 \<and> best_val_seq_acc chosen \<ge> 0.999
      \<and> (\<forall>s \<in> set summaries. params s < 491 \<and> best_val_seq_acc s \<ge> 0.999
            \<longrightarrow> params chosen \<le> params s))"
proof (intro conjI impI)
  assume a: "run_search_best summaries = Inr best"
  then show "best \<in> set summaries"
    unfolding run_search_best_def by (rule py_max_greatest(1))
  from a show "\<forall>s \<in> set summaries. best_val_seq_acc s \<le> best_val_seq_acc best"
    unfolding run_search_best_def by (rule py_max_greatest(2))
next
  assume a: "select_valid results = Inr selected"
  then show "selected \<in> set results" by (rule select_valid_best(1))
  from a show "r_params selected < 491" by (rule select_valid_best(2))
  from a show "\<forall>r \<in> set results. r_params r < 491 \<longrightarrow>
            r_val_seq_acc r < r_val_seq_acc selected
            \<or> (r_val_seq_acc r = r_val_seq_acc selected \<and> r_params selected \<le> r_params r)"
    by (rule select_valid_best(3))
next
  assume "generate_report_best summaries = Inr chosen"
  then have m: "py_min params
      (filter (\<lambda>r. best_val_seq_acc r \<ge> 0.999) (filter (\<lambda>r. params r < 491) summaries))
      = Inr chosen"
    by (simp add: generate_report_best_def Let_def)
  note l = py_min_least [OF m]
  from l(1) show "chosen \<in> set summaries" "params chosen < 491"
    "best_val_seq_acc chosen \<ge> 0.999" by simp_all
  from l(2) show "\<forall>s \<in> set summaries. params s < 491 \<and> best_val_seq_acc s \<ge> 0.999
            \<longrightarrow> params chosen \<le> params s" by simp
qed

theorem selection_prefers_accuracy_witness:
  "run_search_best
     [\<lparr>attempt_name = ''a'', params = 200, best_val_seq_acc = 0.80\<rparr>,
      \<lparr>attempt_name = ''b'', params = 300, best_val_seq_acc = 0.999\<rparr>,
      \<lparr>attempt_name = ''c'', params = 450, best_val_seq_acc = 1.0\<rparr>]
     = Inr \<lparr>attempt_name = ''c'', params = 450, best_val_seq_acc = 1.0\<rparr>
   \<and> generate_report_best
     [\<lparr>attempt_name = ''a'', params = 200, best_val_seq_acc = 0.80\<rparr>,
      \<lparr>attempt_name = ''b'', params = 300, best_val_seq_acc = 0.999\<rparr>,
      \<lparr>attempt_name = ''c'', params = 450, best_val_seq_acc = 1.0\<rparr>]
     = Inr \<lparr>attempt_name = ''b'', params = 300, best_val_seq_acc = 0.999\<rparr>
   \<and> select_valid
     [\<lparr>r_d_model = 3, r_d_ff = 8, r_n_layers = 1, r_params = 200, r_train_loss = 0.5,
         r_val_token_acc = 0.9, r_val_seq_acc = 0.80\<rparr>,
      \<lparr>r_d_model = 5, r_d_ff = 4, r_n_layers = 1, r_params = 450, r_train_loss = 0.1,
         r_val_token_acc = 1.0, r_val_seq_acc = 1.0\<rparr>,
      \<lparr>r_d_model = 4, r_d_ff = 8, r_n_layers = 1, r_params = 300, r_train_loss = 0.1,
         r_val_token_acc = 1.0, r_val_seq_acc = 1.0\<rparr>]
     = Inr \<lparr>r_d_model = 4, r_d_ff = 8, r_n_layers = 1, r_params = 300, r_train_loss = 0.1,
         r_val_token_acc = 1.0, r_val_seq_acc = 1.0\<rparr>
   \<and> (200::nat) < 491 \<and> (0.80::real) < 1.0"
  using selection_prefers_accuracy
    [of "[\<lparr>attempt_name = ''a'', params = 200, best_val_seq_acc = 0.80\<rparr>,
          \<lparr>attempt_name = ''b'', params = 300, best_val_seq_acc = 0.999\<rparr>,
          \<lparr>attempt_name = ''c'', params = 450, best_val_seq_acc = 1.0\<rparr>]"
        "\<lparr>attempt_name = ''c'', params = 450, best_val_seq_acc = 1.0\<rparr>"
        "[\<lparr>r_d_model = 3, r_d_ff = 8, r_n_layers = 1, r_params = 200, r_train_loss = 0.5,
            r_val_token_acc = 0.9, r_val_seq_acc = 0.80\<rparr>,
          \<lparr>r_d_model = 5, r_d_ff = 4, r_n_layers = 1, r_params = 450, r_train_loss = 0.1,
            r_val_token_acc = 1.0, r_val_seq_acc = 1.0\<rparr>,
          \<lparr>r_d_model = 4, r_d_ff = 8, r_n_layers = 1, r_params = 300, r_train_loss = 0.1,
            r_val_token_acc = 1.0, r_val_seq_acc = 1.0\<rparr>]"
        "\<lparr>r_d_model = 4, r_d_ff = 8, r_n_layers = 1, r_params = 300, r_train_loss = 0.1,
            r_val_token_acc = 1.0, r_val_seq_acc = 1.0\<rparr>"
        "\<lparr>attempt_name = ''b'', params = 300, best_val_seq_acc = 0.999\<rparr>"]
  by (simp add: run_search_best_def select_valid_def generate_report_best_def)

section \<open>Batches: targets and masks\<close>

definition mask35 :: "real list" where
  "mask35 = replicate 23 0 @ replicate 12 1"






section \<open>An arithmetic for concrete runs\<close>

text \<open>
  An arithmetic that overflows as float32 does and rounds nothing. Its cross entropy
  follows the log-softmax of PyTorch: the largest logit of the row is subtracted from
  every logit, the exponentials of the differences are summed, and the loss is the
  logarithm of the sum minus the difference at the target; the tensor sum adds from
  left to right.
\<close>

definition fl_exp32 :: "fl \<Rightarrow> fl" where
  "fl_exp32 v = (case v of Fin a \<Rightarrow> fin overflow32 id (exp a) | PInf \<Rightarrow> PInf | NInf \<Rightarrow> Fin 0 | NaN \<Rightarrow> NaN)"

definition fl_log32 :: "fl \<Rightarrow> fl" where
  "fl_log32 v =
     (case v of
        Fin a \<Rightarrow> (if a < 0 then NaN else if a = 0 then NInf else fin overflow32 id (ln a))
      | PInf \<Rightarrow> PInf
      | NInf \<Rightarrow> NaN
      | NaN \<Rightarrow> NaN)"

definition sum_left :: "fl list \<Rightarrow> fl" where
  "sum_left vs = foldl (fl_add overflow32 id) (Fin 0) vs"

definition log_softmax_loss :: "real list \<Rightarrow> nat \<Rightarrow> fl" where
  "log_softmax_loss r t =
     (let mx = fold max r (hd r);
          shifted = map (\<lambda>v. fin overflow32 id (v - mx)) r;
          lse = fl_log32 (sum_left (map fl_exp32 shifted))
      in fl_neg (fl_add overflow32 id (shifted ! t) (fl_neg lse)))"

definition exact_fpu :: fpu where
  "exact_fpu = \<lparr>round32 = id, round64 = id, cross_entropy_row = log_softmax_loss,
                tensor_sum = sum_left\<rparr>"

lemma exact_fpu_fields:
  "round32 exact_fpu = id" "round64 exact_fpu = id"
  "cross_entropy_row exact_fpu = log_softmax_loss" "tensor_sum exact_fpu = sum_left"
  by (simp_all add: exact_fpu_def)

lemma overflow_values:
  "overflow32 = 340282356779733661637539395458142568448"
  "(1::real) < overflow32" "(1::real) < overflow64"
  by (simp_all add: overflow32_def overflow64_def)

section \<open>Sequence accuracy and token accuracy\<close>


































section \<open>The masked loss\<close>

lemma chunks_concat:
  assumes "0 < n" and "\<forall>r \<in> set rows. length r = n"
  shows "chunks n (concat rows) = rows"
  using assms(2)
proof (induction rows)
  case Nil
  then show ?case by (simp add: chunks.simps [of n "[]"])
next
  case (Cons r rows)
  then have r: "length r = n" and IH: "chunks n (concat rows) = rows" by simp_all
  have "r \<noteq> []" using r assms(1) by auto
  then show ?case
    using r assms(1) IH by (simp add: chunks.simps [of n "r @ concat rows"])
qed

lemma length_concat_const:
  "\<forall>r \<in> set rows. length r = n \<Longrightarrow> length (concat rows) = n * length rows"
  by (induction rows) simp_all

lemma view_rows_shaped:
  assumes "0 < n" and "\<forall>r \<in> set (concat t). length r = n"
  shows "view_rows n t = Inr (concat t)"
  using assms chunks_concat [OF assms] length_concat_const [OF assms(2)]
  by (simp add: view_rows_def Let_def)

text \<open>From agreement position by position to agreement of the flattened tensors.\<close>

lemma concat_agree:
  assumes "length L1 = length m" and "length L2 = length m" and "length Y = length m"
    and "\<forall>b < length m. length (L1 ! b) = length (m ! b) \<and> length (L2 ! b) = length (m ! b)
                         \<and> length (Y ! b) = length (m ! b)"
    and "\<forall>b < length m. \<forall>t < length (m ! b). P (L1 ! b ! t) (L2 ! b ! t) (Y ! b ! t) (m ! b ! t)"
  shows "length (concat L1) = length (concat m) \<and> length (concat L2) = length (concat m)
         \<and> length (concat Y) = length (concat m)
         \<and> (\<forall>i < length (concat m).
               P (concat L1 ! i) (concat L2 ! i) (concat Y ! i) (concat m ! i))"
  using assms
proof (induction m arbitrary: L1 L2 Y)
  case Nil
  then show ?case by simp
next
  case (Cons mr ms)
  from Cons.prems(1,2,3) obtain r1 R1 r2 R2 yr YR where
    L: "L1 = r1 # R1" "L2 = r2 # R2" "Y = yr # YR"
    by (cases L1; cases L2; cases Y) auto
  have len: "length R1 = length ms" "length R2 = length ms" "length YR = length ms"
    using Cons.prems(1,2,3) L by simp_all
  have row: "length r1 = length mr" "length r2 = length mr" "length yr = length mr"
    "\<forall>t < length mr. P (r1 ! t) (r2 ! t) (yr ! t) (mr ! t)"
    using Cons.prems(4,5) L by force+
  have t3: "\<forall>b < length ms. length (R1 ! b) = length (ms ! b) \<and> length (R2 ! b) = length (ms ! b)
                             \<and> length (YR ! b) = length (ms ! b)"
    using Cons.prems(4) L by force
  have t4: "\<forall>b < length ms. \<forall>t < length (ms ! b).
              P (R1 ! b ! t) (R2 ! b ! t) (YR ! b ! t) (ms ! b ! t)"
    using Cons.prems(5) L by force
  note IH = Cons.IH [OF len t3 t4]
  show ?case
    using IH row by (auto simp: L nth_append)
qed

lemma bex_zip_nth:
  "(\<exists>(r, t) \<in> set (zip R Y). Q r t) \<longleftrightarrow> (\<exists>i. i < length R \<and> i < length Y \<and> Q (R ! i) (Y ! i))"
  by (auto simp: set_zip)

lemma ce_index_agree:
  assumes "length R1 = length W" and "length R2 = length W"
    and "\<forall>i < length W. length (R1 ! i) = n \<and> length (R2 ! i) = n"
  shows "(\<exists>(r, t) \<in> set (zip R1 Y). length r \<le> t) \<longleftrightarrow> (\<exists>(r, t) \<in> set (zip R2 Y). length r \<le> t)"
proof -
  have "\<And>i. i < length W \<Longrightarrow> length (R1 ! i) = length (R2 ! i)" using assms(3) by simp
  then have "(\<exists>i. i < length R1 \<and> i < length Y \<and> length (R1 ! i) \<le> Y ! i)
        \<longleftrightarrow> (\<exists>i. i < length R2 \<and> i < length Y \<and> length (R2 ! i) \<le> Y ! i)"
    unfolding assms(1,2) by metis
  then show ?thesis by (simp only: bex_zip_nth)
qed

lemma ce_Inl_iff:
  "cross_entropy_none fp R Y = Inl e \<longleftrightarrow>
     (length R \<noteq> length Y \<and> e = ValueError)
     \<or> (length R = length Y \<and> (\<exists>(r, t) \<in> set (zip R Y). length r \<le> t) \<and> e = IndexError)"
proof -
  define B where "B \<longleftrightarrow> (\<exists>(r, t) \<in> set (zip R Y). length r \<le> t)"
  have "cross_entropy_none fp R Y =
     (if length R \<noteq> length Y then Inl ValueError
      else if B then Inl IndexError
      else Inr (map (\<lambda>(r, t). cross_entropy_row fp r t) (zip R Y)))"
    unfolding B_def cross_entropy_none_def ..
  then show ?thesis unfolding B_def [symmetric] by auto
qed

lemma ce_Inr_iff:
  "cross_entropy_none fp R Y = Inr l \<longleftrightarrow>
     length R = length Y \<and> \<not> (\<exists>(r, t) \<in> set (zip R Y). length r \<le> t)
     \<and> l = map (\<lambda>(r, t). cross_entropy_row fp r t) (zip R Y)"
proof -
  define B where "B \<longleftrightarrow> (\<exists>(r, t) \<in> set (zip R Y). length r \<le> t)"
  have "cross_entropy_none fp R Y =
     (if length R \<noteq> length Y then Inl ValueError
      else if B then Inl IndexError
      else Inr (map (\<lambda>(r, t). cross_entropy_row fp r t) (zip R Y)))"
    unfolding B_def cross_entropy_none_def ..
  then show ?thesis unfolding B_def [symmetric] by auto
qed

lemma mul32_zero: "is_finite u \<Longrightarrow> mul32 fp u (Fin 0) = fin overflow32 (round32 fp) 0"
  by (cases u) (simp_all add: mul32_def)

lemma weighted_rows_agree:
  assumes "length R1 = length W" and "length R2 = length W"
    and "\<forall>i < length W. length (R1 ! i) = n \<and> length (R2 ! i) = n
           \<and> (W ! i \<noteq> 0 \<longrightarrow> R1 ! i = R2 ! i)
           \<and> (W ! i = 0 \<longrightarrow> is_finite (cross_entropy_row fp (R1 ! i) (Y ! i))
                             \<and> is_finite (cross_entropy_row fp (R2 ! i) (Y ! i)))"
  shows "cross_entropy_none fp R1 Y = Inl e \<longleftrightarrow> cross_entropy_none fp R2 Y = Inl e"
    and "cross_entropy_none fp R1 Y = Inr l1 \<Longrightarrow> cross_entropy_none fp R2 Y = Inr l2 \<Longrightarrow>
         map (\<lambda>(u, w). mul32 fp u w) (zip l1 (map Fin W))
         = map (\<lambda>(u, w). mul32 fp u w) (zip l2 (map Fin W))"
proof -
  have n: "\<forall>i < length W. length (R1 ! i) = n \<and> length (R2 ! i) = n" using assms(3) by simp
  note ix = ce_index_agree [OF assms(1,2) n, of Y]
  show "cross_entropy_none fp R1 Y = Inl e \<longleftrightarrow> cross_entropy_none fp R2 Y = Inl e"
    unfolding ce_Inl_iff ix assms(1,2) ..
  assume a: "cross_entropy_none fp R1 Y = Inr l1" "cross_entropy_none fp R2 Y = Inr l2"
  have ly: "length Y = length W" using a(1) assms(1) unfolding ce_Inr_iff by simp
  have l1: "l1 = map (\<lambda>(r, t). cross_entropy_row fp r t) (zip R1 Y)"
    using a(1) unfolding ce_Inr_iff by blast
  have l2: "l2 = map (\<lambda>(r, t). cross_entropy_row fp r t) (zip R2 Y)"
    using a(2) unfolding ce_Inr_iff by blast
  let ?f = "\<lambda>l. map (\<lambda>(u, w). mul32 fp u w) (zip l (map Fin W))"
  show "?f l1 = ?f l2"
  proof (rule nth_equalityI)
    show "length (?f l1) = length (?f l2)"
      using assms(1,2) ly by (simp add: l1 l2)
    fix i assume "i < length (?f l1)"
    then have i: "i < length W" by simp
    show "?f l1 ! i = ?f l2 ! i"
    proof (cases "W ! i = 0")
      case True
      then have "is_finite (cross_entropy_row fp (R1 ! i) (Y ! i))"
        "is_finite (cross_entropy_row fp (R2 ! i) (Y ! i))"
        using assms(3) i by simp_all
      then show ?thesis
        using i assms(1,2) ly True by (simp add: l1 l2 mul32_zero)
    next
      case False
      then have "R1 ! i = R2 ! i" using assms(3) i by simp
      then show ?thesis using i assms(1,2) ly by (simp add: l1 l2)
    qed
  qed
qed

text \<open>
  Claim C5, amended. For two logit tensors of the shape \<open>(B, T, VOCAB)\<close> of the mask's batch
  that agree at every position where the mask is not zero, the masked loss with the same
  targets and the same mask is the same, provided the cross entropy of every position
  where the mask is zero is finite for both tensors. (A position whose cross entropy is
  infinite or NaN contributes NaN to the sum although its mask is zero.)
\<close>

theorem masked_loss_ignores_unmasked:
  assumes "length logits1 = length m" and "length logits2 = length m" and "length y = length m"
    and "\<forall>b < length m. length (logits1 ! b) = length (m ! b)
                         \<and> length (logits2 ! b) = length (m ! b)
                         \<and> length (y ! b) = length (m ! b)"
    and "\<forall>b < length m. \<forall>t < length (m ! b).
           length (logits1 ! b ! t) = VOCAB \<and> length (logits2 ! b ! t) = VOCAB
           \<and> (m ! b ! t \<noteq> 0 \<longrightarrow> logits1 ! b ! t = logits2 ! b ! t)
           \<and> (m ! b ! t = 0 \<longrightarrow>
                is_finite (cross_entropy_row fp (logits1 ! b ! t) (y ! b ! t))
                \<and> is_finite (cross_entropy_row fp (logits2 ! b ! t) (y ! b ! t)))"
  shows "masked_loss fp logits1 y m = masked_loss fp logits2 y m"
proof -
  let ?P = "\<lambda>r1 r2 t w. length r1 = VOCAB \<and> length r2 = VOCAB \<and> (w \<noteq> 0 \<longrightarrow> r1 = r2)
              \<and> (w = 0 \<longrightarrow> is_finite (cross_entropy_row fp r1 t)
                            \<and> is_finite (cross_entropy_row fp r2 t))"
  let ?R1 = "concat logits1" and ?R2 = "concat logits2" and ?W = "concat m" and ?Y = "concat y"
  from concat_agree [where P = ?P, OF assms]
  have len: "length ?R1 = length ?W" "length ?R2 = length ?W" "length ?Y = length ?W"
    and ag: "\<forall>i < length ?W. length (?R1 ! i) = VOCAB \<and> length (?R2 ! i) = VOCAB
               \<and> (?W ! i \<noteq> 0 \<longrightarrow> ?R1 ! i = ?R2 ! i)
               \<and> (?W ! i = 0 \<longrightarrow> is_finite (cross_entropy_row fp (?R1 ! i) (?Y ! i))
                                 \<and> is_finite (cross_entropy_row fp (?R2 ! i) (?Y ! i)))"
    by simp_all
  have v: "0 < VOCAB" by (simp add: VOCAB_14)
  have "\<forall>r \<in> set ?R1. length r = VOCAB" using ag len(1) by (metis in_set_conv_nth)
  then have v1: "view_rows VOCAB logits1 = Inr ?R1" using v view_rows_shaped by blast
  have "\<forall>r \<in> set ?R2. length r = VOCAB" using ag len(2) by (metis in_set_conv_nth)
  then have v2: "view_rows VOCAB logits2 = Inr ?R2" using v view_rows_shaped by blast
  note w = weighted_rows_agree [OF len(1,2) ag]
  show ?thesis
  proof (cases "cross_entropy_none fp ?R1 ?Y")
    case (Inl e)
    then have "cross_entropy_none fp ?R2 ?Y = Inl e" using w(1) by simp
    with Inl show ?thesis by (simp add: masked_loss_def v1 v2)
  next
    case (Inr l1)
    then obtain l2 where r2: "cross_entropy_none fp ?R2 ?Y = Inr l2"
      using w(1) by (cases "cross_entropy_none fp ?R2 ?Y") auto
    have ll: "length l1 = length ?W" "length l2 = length ?W"
      using Inr r2 len unfolding ce_Inr_iff by simp_all
    then have "broadcast_mul fp l1 (map Fin ?W) = broadcast_mul fp l2 (map Fin ?W)"
      using w(2) [OF Inr r2] by (simp add: broadcast_mul_def)
    with Inr r2 show ?thesis by (simp add: masked_loss_def v1 v2)
  qed
qed

lemma ln_14_bounds: "0 < ln (14::real)" "ln (14::real) < 14"
proof -
  show "0 < ln (14::real)" by simp
  have "ln (14::real) \<le> 14 - 1" by (rule ln_le_minus_one) simp
  then show "ln (14::real) < 14" by simp
qed

lemma fin_ln_14:
  "fin overflow32 id (ln 14) = Fin (ln 14)" "fin overflow32 id (- ln 14) = Fin (- ln 14)"
proof -
  have "\<not> overflow32 \<le> ln 14" "\<not> ln 14 \<le> - overflow32"
    "\<not> overflow32 \<le> - ln 14" "\<not> - ln 14 \<le> - overflow32"
    using ln_14_bounds unfolding overflow_values(1) by linarith+
  then show "fin overflow32 id (ln 14) = Fin (ln 14)"
    "fin overflow32 id (- ln 14) = Fin (- ln 14)"
    by (simp_all add: fin_def)
qed

lemma fin_small:
  "fin overflow32 id 0 = Fin 0" "fin overflow32 id 1 = Fin 1" "fin overflow32 id 14 = Fin 14"
  by (simp_all add: fin_def overflow_values(1))

lemma sum_left_ones: "sum_left (replicate 14 (Fin 1)) = Fin 14"
  by (simp add: sum_left_def numeral_eq_Suc fin_def overflow32_def)

lemma loss_flat:
  assumes "t < 14"
  shows "log_softmax_loss (replicate 14 c) t = Fin (ln 14)"
proof -
  have mx: "fold max (replicate 14 c) (hd (replicate 14 c)) = c"
    by (simp add: numeral_eq_Suc)
  have sh: "map (\<lambda>v. fin overflow32 id (v - c)) (replicate 14 c) = replicate 14 (Fin 0)"
    by (simp add: fin_small)
  have ex: "map fl_exp32 (replicate 14 (Fin 0)) = replicate 14 (Fin 1)"
    by (simp add: fl_exp32_def fin_small)
  have "log_softmax_loss (replicate 14 c) t
        = fl_neg (fl_add overflow32 id (replicate 14 (Fin 0) ! t) (fl_neg (fl_log32 (Fin 14))))"
    unfolding log_softmax_loss_def Let_def mx sh ex sum_left_ones ..
  then show ?thesis
    using assms by (simp add: fl_log32_def fin_ln_14)
qed

lemma loss_overflow:
  "log_softmax_loss (3 * 10 ^ 38 # replicate 13 (- (3 * 10 ^ 38))) 7 = PInf"
proof -
  let ?r = "3 * 10 ^ 38 # replicate 13 (- (3 * 10 ^ 38)) :: real list"
  have mx: "fold max ?r (hd ?r) = 3 * 10 ^ 38"
    by (simp add: numeral_eq_Suc)
  have sh: "map (\<lambda>v. fin overflow32 id (v - 3 * 10 ^ 38)) ?r = Fin 0 # replicate 13 NInf"
    by (simp add: fin_def overflow_values(1))
  have ex: "map fl_exp32 (Fin 0 # replicate 13 NInf) = Fin 1 # replicate 13 (Fin 0)"
    by (simp add: fl_exp32_def fin_small)
  have su: "sum_left (Fin 1 # replicate 13 (Fin 0)) = Fin 1"
    by (simp add: sum_left_def numeral_eq_Suc fin_def overflow32_def)
  have "log_softmax_loss ?r 7
        = fl_neg (fl_add overflow32 id ((Fin 0 # replicate 13 NInf) ! 7)
                    (fl_neg (fl_log32 (Fin 1))))"
    unfolding log_softmax_loss_def Let_def mx sh ex su ..
  then show ?thesis
    by (simp add: fl_log32_def fin_small)
qed

lemma chunks_two:
  assumes "length r1 = 14" and "length r2 = 14"
  shows "view_rows VOCAB [[r1, r2]] = Inr [r1, r2]"
  using assms by (intro view_rows_shaped [of VOCAB "[[r1, r2]]", simplified]) (auto simp: VOCAB_14)

lemma two_position_loss:
  assumes "length r1 = 14" and "length r2 = 14"
  shows "masked_loss exact_fpu [[r1, r2]] [[7, 0]] [[0, 1]]
         = Inr (div32 exact_fpu
                  (sum_left [mul32 exact_fpu (log_softmax_loss r1 7) (Fin 0),
                             mul32 exact_fpu (log_softmax_loss r2 0) (Fin 1)])
                  (sum_left [Fin 0, Fin 1]))"
  using assms
  by (simp add: masked_loss_def chunks_two cross_entropy_none_def broadcast_mul_def
      exact_fpu_fields)

theorem masked_loss_ignores_unmasked_witness:
  "masked_loss exact_fpu [[replicate 14 5, replicate 14 0]] [[7, 0]] [[0, 1]]
     = masked_loss exact_fpu [[replicate 14 0, replicate 14 0]] [[7, 0]] [[0, 1]]
   \<and> masked_loss exact_fpu [[replicate 14 0, replicate 14 0]] [[7, 0]] [[0, 1]]
     = Inr (Fin (ln 14))"
proof -
  have v: "masked_loss exact_fpu [[replicate 14 0, replicate 14 0]] [[7, 0]] [[0, 1]]
           = Inr (Fin (ln 14))"
    by (simp add: two_position_loss loss_flat mul32_def div32_def exact_fpu_fields sum_left_def
        fin_small fin_ln_14)
  have h: "\<forall>b < length [[0, 1 :: real]]. \<forall>t < length ([[0, 1 :: real]] ! b).
           length ([[replicate 14 5, replicate 14 0]] ! b ! t) = VOCAB
           \<and> length ([[replicate 14 (0::real), replicate 14 0]] ! b ! t) = VOCAB
           \<and> ([[0, 1 :: real]] ! b ! t \<noteq> 0
                \<longrightarrow> [[replicate 14 5, replicate 14 0]] ! b ! t
                    = [[replicate 14 (0::real), replicate 14 0]] ! b ! t)
           \<and> ([[0, 1 :: real]] ! b ! t = 0 \<longrightarrow>
                is_finite (cross_entropy_row exact_fpu
                             ([[replicate 14 5, replicate 14 0]] ! b ! t) ([[7, 0]] ! b ! t))
                \<and> is_finite (cross_entropy_row exact_fpu
                               ([[replicate 14 (0::real), replicate 14 0]] ! b ! t)
                               ([[7, 0]] ! b ! t)))"
    by (simp add: VOCAB_14 less_Suc_eq numeral_2_eq_2 exact_fpu_fields loss_flat)
  have "masked_loss exact_fpu [[replicate 14 5, replicate 14 0]] [[7, 0]] [[0, 1]]
     = masked_loss exact_fpu [[replicate 14 0, replicate 14 0]] [[7, 0]] [[0, 1]]"
    by (rule masked_loss_ignores_unmasked [OF _ _ _ _ h]) simp_all
  with v show ?thesis by simp
qed

theorem masked_loss_nan_counterexample:
  "masked_loss exact_fpu
     [[3 * 10 ^ 38 # replicate 13 (- (3 * 10 ^ 38)), replicate 14 0]] [[7, 0]] [[0, 1]]
     = Inr NaN
   \<and> masked_loss exact_fpu [[replicate 14 0, replicate 14 0]] [[7, 0]] [[0, 1]]
     = Inr (Fin (ln 14))"
proof -
  have v: "masked_loss exact_fpu [[replicate 14 0, replicate 14 0]] [[7, 0]] [[0, 1]]
           = Inr (Fin (ln 14))"
    by (simp add: two_position_loss loss_flat mul32_def div32_def exact_fpu_fields sum_left_def
        fin_small fin_ln_14)
  have n: "masked_loss exact_fpu
     [[3 * 10 ^ 38 # replicate 13 (- (3 * 10 ^ 38)), replicate 14 0]] [[7, 0]] [[0, 1]]
     = Inr NaN"
    using loss_overflow
    by (simp add: two_position_loss loss_flat mul32_def div32_def sum_left_def exact_fpu_fields
        fin_small)
  from n v show ?thesis by simp
qed

section \<open>Early stopping\<close>

definition stops :: "metrics \<Rightarrow> bool" where
  "stops mt \<longleftrightarrow> val_seq_acc mt \<ge> 0.999 \<and> epoch mt \<ge> 3"

lemma epoch_loop_history:
  assumes "epoch_loop body n ep s h = Inr (s', h')"
    and "\<forall>e s t mt. body e s = Inr (t, mt) \<longrightarrow> epoch mt = e"
    and "length h + 1 = ep"
    and "\<forall>i < length h. epoch (h ! i) = Suc i \<and> \<not> stops (h ! i)"
  shows "length h' \<le> max n (length h)
         \<and> (\<forall>i < length h'. epoch (h' ! i) = Suc i)
         \<and> (\<forall>i < length h'. stops (h' ! i) \<longrightarrow> Suc i = length h')
         \<and> (length h' < n \<longrightarrow> h' \<noteq> [] \<and> stops (last h'))"
  using assms
proof (induction body n ep s h rule: epoch_loop.induct)
  case (1 body n ep s history)
  show ?case
  proof (cases "n < ep")
    case True
    with "1.prems"(1) have "h' = history" by (simp add: epoch_loop.simps [of body n ep])
    with True "1.prems"(3,4) show ?thesis by auto
  next
    case False
    with "1.prems"(1) obtain s1 mt where b: "body ep s = Inr (s1, mt)"
      by (auto simp: epoch_loop.simps [of body n ep] split: sum.splits)
    with "1.prems"(2) have em: "epoch mt = ep" by blast
    let ?h = "history @ [mt]"
    have ep: "\<forall>i < length ?h. epoch (?h ! i) = Suc i"
      using "1.prems"(3,4) em by (auto simp: nth_append less_Suc_eq)
    have unf: "epoch_loop body n ep s history =
        (if val_seq_acc mt \<ge> 0.999 \<and> ep \<ge> 3 then Inr (s1, ?h)
         else epoch_loop body n (Suc ep) s1 ?h)"
      using False b by (subst epoch_loop.simps) simp
    show ?thesis
    proof (cases "val_seq_acc mt \<ge> 0.999 \<and> ep \<ge> 3")
      case True
      have h': "h' = ?h"
        using "1.prems"(1) True unfolding unf by simp
      have "\<forall>i < length ?h. stops (?h ! i) \<longrightarrow> Suc i = length ?h"
        using "1.prems"(4) by (auto simp: nth_append less_Suc_eq)
      moreover have "stops (last ?h)" using True em by (simp add: stops_def)
      moreover have "length ?h \<le> max n (length history)" using False "1.prems"(3) by simp
      ultimately show ?thesis using ep unfolding h' by simp
    next
      case ns: False
      have r: "epoch_loop body n (Suc ep) s1 ?h = Inr (s', h')"
        using "1.prems"(1) unfolding unf by (simp only: ns if_False)
      have "\<not> stops mt" using ns em by (simp add: stops_def)
      then have p4: "\<forall>i < length ?h. epoch (?h ! i) = Suc i \<and> \<not> stops (?h ! i)"
        using ep "1.prems"(4) by (auto simp: nth_append less_Suc_eq)
      have p3: "length ?h + 1 = Suc ep" using "1.prems"(3) by simp
      from "1.IH" [OF False b refl ns r "1.prems"(2) p3 p4]
      have "length h' \<le> max n (length ?h)
         \<and> (\<forall>i < length h'. epoch (h' ! i) = Suc i)
         \<and> (\<forall>i < length h'. stops (h' ! i) \<longrightarrow> Suc i = length h')
         \<and> (length h' < n \<longrightarrow> h' \<noteq> [] \<and> stops (last h'))" .
      moreover have "max n (length ?h) \<le> max n (length history)"
        using False "1.prems"(3) by simp
      ultimately show ?thesis by simp
    qed
  qed
qed

lemma train_epoch_epoch:
  "train_epoch tr a n_par val_pairs e s = Inr (t, mt) \<Longrightarrow> epoch mt = e"
  by (auto simp: train_epoch_def split: prod.splits sum.splits if_splits)

text \<open>
  Claim C7. The epoch loop of \<^verbatim>\<open>train_attempt\<close> runs at most the configured number of
  epochs, numbered from 1, and runs no further epoch after an epoch \<open>e \<ge> 3\<close> whose
  validation sequence accuracy is at least 0.999; it ends before the budget only in that
  way.
\<close>

theorem early_stop:
  assumes "train_attempt tr a train_pairs val_pairs st = Inr (out, history, train_pairs', st')"
  shows "length history \<le> epochs a
         \<and> (\<forall>i < length history. epoch (history ! i) = Suc i)
         \<and> (\<forall>i < length history.
               val_seq_acc (history ! i) \<ge> 0.999 \<and> epoch (history ! i) \<ge> 3
               \<longrightarrow> Suc i = length history)
         \<and> (length history < epochs a \<longrightarrow>
               history \<noteq> [] \<and> val_seq_acc (last history) \<ge> 0.999 \<and> epoch (last history) \<ge> 3)"
proof -
  let ?body = "train_epoch tr a (count_params (TinyTransformer (d_model a) (d_ff a))) val_pairs"
  from assms have l: "epoch_loop ?body (epochs a) 1 (train_pairs, st) []
                      = Inr ((train_pairs', st'), history)"
    by (auto simp: train_attempt_def Let_def split: sum.splits prod.splits)
  have b: "\<forall>e s t mt. ?body e s = Inr (t, mt) \<longrightarrow> epoch mt = e"
    using train_epoch_epoch by blast
  from epoch_loop_history [OF l b] show ?thesis
    by (simp add: stops_def)
qed

text \<open>
  For concrete runs: a trainer whose model gives the highest logit to its input token,
  whose optimizer changes nothing, whose shuffle keeps the order and whose arithmetic
  rounds nothing; and the first attempt of \<^verbatim>\<open>main\<close>.
\<close>

definition echo_trainer :: "unit trainer" where
  "echo_trainer =
     \<lparr>forward = (\<lambda>st x. Inr (map (map (\<lambda>t. map (\<lambda>j. if j = t then 1 else 0) [0..<14])) x)),
      opt_step = (\<lambda>st b. st),
      shuffle = (\<lambda>st pairs. (pairs, st)),
      arith = exact_fpu\<rparr>"

lemma masked_loss_defined:
  assumes "\<forall>r \<in> set (concat logits). length r = VOCAB"
    and "length (concat logits) = length (concat y)"
    and "length (concat y) = length (concat m)"
    and "\<forall>t \<in> set (concat y). t < VOCAB"
  shows "\<exists>L. masked_loss fp logits y m = Inr L"
proof -
  have v: "view_rows VOCAB logits = Inr (concat logits)"
    using assms(1) by (intro view_rows_shaped) (simp_all add: VOCAB_14)
  have nb: "\<not> (\<exists>(r, t) \<in> set (zip (concat logits) (concat y)). length r \<le> t)"
    unfolding bex_zip_nth using assms(1,4) by (metis nth_mem not_le)
  let ?l = "map (\<lambda>(r, t). cross_entropy_row fp r t) (zip (concat logits) (concat y))"
  have c: "cross_entropy_none fp (concat logits) (concat y) = Inr ?l"
    unfolding ce_Inr_iff using nb assms(2) by blast
  have ll: "length ?l = length (map Fin (concat m))" using assms(2,3) by simp
  have b: "\<exists>w. broadcast_mul fp ?l (map Fin (concat m)) = Inr w"
    unfolding broadcast_mul_def if_P [OF ll] by blast
  then obtain w where "broadcast_mul fp ?l (map Fin (concat m)) = Inr w" ..
  then show ?thesis by (simp add: masked_loss_def v c)
qed

lemma echo_forward:
  "forward echo_trainer st x = Inr (map (map (\<lambda>t. map (\<lambda>j. if j = t then 1 else 0) [0..<14])) x)"
  "arith echo_trainer = exact_fpu"
  by (simp_all add: echo_trainer_def)

lemma echo_steps: "opt_step echo_trainer st b = st" "shuffle echo_trainer st pairs = (pairs, st)"
  by (simp_all add: echo_trainer_def)

definition ids_1_2 :: "nat list" where
  "ids_1_2 = [0, 5, 4, 4, 4, 4, 4, 4, 4, 4, 4, 1, 6, 4, 4, 4, 4, 4, 4, 4, 4, 4, 2,
              7, 4, 4, 4, 4, 4, 4, 4, 4, 4, 4, 3]"

lemma batchify_1_2: "batchify [(1, 2)] 256 = [Inr ([ids_1_2], [ids_1_2], [mask35])]"
proof -
  have e: "encode_example 1 2 = Inr (ids_1_2, ids_1_2, mask35)"
    by code_simp
  have c: "chunks 256 [(1, 2) :: int \<times> int] = [[(1, 2)]]"
    by (simp add: chunks.simps [of 256 "[(1, 2)]"] chunks.simps [of 256 "[]"])
  show ?thesis by (simp add: batchify_def c encode_batch_def e)
qed

lemma echo_loss:
  "\<exists>L. masked_loss exact_fpu
         [map (\<lambda>t. map (\<lambda>j. if j = t then 1 else 0) [0..<14]) ids_1_2] [ids_1_2] [mask35]
       = Inr L"
  by (rule masked_loss_defined) (simp_all add: VOCAB_14 ids_1_2_def mask35_def)

lemma echo_evaluate:
  "evaluate (forward echo_trainer ()) [(1, 2)] 512 = Inr (1, 1)"
  "evaluate (forward echo_trainer ()) [(3, 4)] 512 = Inr (1, 1)"
  unfolding echo_forward(1) by code_simp+

lemma sum_left_mask35: "sum_left (map Fin mask35) = Fin 12"
  by (simp add: mask35_def sum_left_def numeral_eq_Suc fin_def overflow32_def)

lemma echo_epoch:
  "\<exists>L. train_epoch echo_trainer a n_par [(3, 4)] e ([(1, 2)], ())
     = Inr (([(1, 2)], ()),
            \<lparr>epoch = e, train_loss = L, train_tok_acc = 1, train_seq_acc = 1,
             val_tok_acc = 1, val_seq_acc = 1, n_params = n_par\<rparr>)"
  if "batch_size a = 256"
proof -
  obtain L where L: "masked_loss exact_fpu
      [map (\<lambda>t. map (\<lambda>j. if j = t then 1 else 0) [0..<14]) ids_1_2] [ids_1_2] [mask35] = Inr L"
    using echo_loss by blast
  define TL where "TL = py_add exact_fpu (Fin 0) (py_mul exact_fpu L (Fin 12))"
  have c: "py_add exact_fpu (Fin 0) (Fin 12) = Fin 12"
    by (simp add: py_add_def exact_fpu_fields fin_def overflow64_def)
  have "train_batches echo_trainer (batchify [(1, 2)] 256) () (Fin 0, Fin 0)
        = Inr ((), TL, Fin 12)"
    by (simp add: batchify_1_2 echo_forward echo_steps L exact_fpu_fields sum_left_mask35 c
        TL_def Let_def)
  then show ?thesis
    using that by (simp add: train_epoch_def echo_steps echo_evaluate echo_forward py_truediv_def)
qed

definition a_d4_ff8 :: attempt where
  "a_d4_ff8 = \<lparr>name = ''a_d4_ff8'', d_model = 4, d_ff = 8, lr = 0.002, epochs = 12, batch_size = 256\<rparr>"

lemma a_d4_ff8_fields:
  "name a_d4_ff8 = ''a_d4_ff8''" "d_model a_d4_ff8 = 4" "d_ff a_d4_ff8 = 8"
  "epochs a_d4_ff8 = 12" "batch_size a_d4_ff8 = 256"
  by (simp_all add: a_d4_ff8_def)

lemma echo_run_any:
  assumes "epochs a = 12" and "batch_size a = 256"
  shows "\<exists>L1 L2 L3.
     train_attempt echo_trainer a [(1, 2)] [(3, 4)] ()
     = Inr (\<lparr>attempt_name = name a,
             params = count_params (TinyTransformer (d_model a) (d_ff a)),
             best_val_seq_acc = 1\<rparr>,
            [\<lparr>epoch = Suc 0, train_loss = L1, train_tok_acc = 1, train_seq_acc = 1,
              val_tok_acc = 1, val_seq_acc = 1,
              n_params = count_params (TinyTransformer (d_model a) (d_ff a))\<rparr>,
             \<lparr>epoch = 2, train_loss = L2, train_tok_acc = 1, train_seq_acc = 1,
              val_tok_acc = 1, val_seq_acc = 1,
              n_params = count_params (TinyTransformer (d_model a) (d_ff a))\<rparr>,
             \<lparr>epoch = 3, train_loss = L3, train_tok_acc = 1, train_seq_acc = 1,
              val_tok_acc = 1, val_seq_acc = 1,
              n_params = count_params (TinyTransformer (d_model a) (d_ff a))\<rparr>],
            [(1, 2)], ())"
proof -
  define n_par where "n_par = count_params (TinyTransformer (d_model a) (d_ff a))"
  let ?body = "train_epoch echo_trainer a n_par [(3, 4)]"
  let ?m = "\<lambda>e L. \<lparr>epoch = e, train_loss = L, train_tok_acc = 1, train_seq_acc = 1,
             val_tok_acc = 1, val_seq_acc = 1, n_params = n_par\<rparr>"
  obtain L1 L2 L3 where
    e1: "?body (Suc 0) ([(1, 2)], ()) = Inr (([(1, 2)], ()), ?m (Suc 0) L1)"
    and e2: "?body 2 ([(1, 2)], ()) = Inr (([(1, 2)], ()), ?m 2 L2)"
    and e3: "?body 3 ([(1, 2)], ()) = Inr (([(1, 2)], ()), ?m 3 L3)"
    using echo_epoch [OF assms(2)] by metis
  have l3: "epoch_loop ?body 12 3 ([(1, 2)], ()) [?m (Suc 0) L1, ?m 2 L2]
            = Inr (([(1, 2)], ()), [?m (Suc 0) L1, ?m 2 L2, ?m 3 L3])"
    by (subst epoch_loop.simps) (simp add: e3)
  have l2: "epoch_loop ?body 12 2 ([(1, 2)], ()) [?m (Suc 0) L1]
            = Inr (([(1, 2)], ()), [?m (Suc 0) L1, ?m 2 L2, ?m 3 L3])"
    by (subst epoch_loop.simps) (simp add: e2 l3)
  have l1: "epoch_loop ?body 12 (Suc 0) ([(1, 2)], ()) []
            = Inr (([(1, 2)], ()), [?m (Suc 0) L1, ?m 2 L2, ?m 3 L3])"
    by (subst epoch_loop.simps) (simp add: e1 l2 numeral_2_eq_2 [symmetric])
  have "train_attempt echo_trainer a [(1, 2)] [(3, 4)] ()
     = Inr (\<lparr>attempt_name = name a, params = n_par, best_val_seq_acc = 1\<rparr>,
            [?m (Suc 0) L1, ?m 2 L2, ?m 3 L3], [(1, 2)], ())"
    by (simp add: train_attempt_def n_par_def [symmetric] assms(1) l1 Let_def)
  then show ?thesis unfolding n_par_def by blast
qed

lemma echo_run:
  "\<exists>L1 L2 L3.
     train_attempt echo_trainer a_d4_ff8 [(1, 2)] [(3, 4)] ()
     = Inr (\<lparr>attempt_name = ''a_d4_ff8'', params = count_params (TinyTransformer 4 8),
             best_val_seq_acc = 1\<rparr>,
            [\<lparr>epoch = Suc 0, train_loss = L1, train_tok_acc = 1, train_seq_acc = 1,
              val_tok_acc = 1, val_seq_acc = 1, n_params = count_params (TinyTransformer 4 8)\<rparr>,
             \<lparr>epoch = 2, train_loss = L2, train_tok_acc = 1, train_seq_acc = 1,
              val_tok_acc = 1, val_seq_acc = 1, n_params = count_params (TinyTransformer 4 8)\<rparr>,
             \<lparr>epoch = 3, train_loss = L3, train_tok_acc = 1, train_seq_acc = 1,
              val_tok_acc = 1, val_seq_acc = 1, n_params = count_params (TinyTransformer 4 8)\<rparr>],
            [(1, 2)], ())"
  using echo_run_any [of a_d4_ff8] by (simp add: a_d4_ff8_fields)

theorem early_stop_witness:
  "\<exists>out history tp st.
     train_attempt echo_trainer a_d4_ff8 [(1, 2)] [(3, 4)] () = Inr (out, history, tp, st)
     \<and> map epoch history = [1, 2, 3] \<and> map val_seq_acc history = [1, 1, 1]
     \<and> length history < 12"
proof -
  let ?m = "\<lambda>e L. \<lparr>epoch = e, train_loss = L, train_tok_acc = 1, train_seq_acc = 1,
             val_tok_acc = 1, val_seq_acc = 1, n_params = count_params (TinyTransformer 4 8)\<rparr>"
  from echo_run obtain L1 L2 L3 where
    run: "train_attempt echo_trainer a_d4_ff8 [(1, 2)] [(3, 4)] ()
     = Inr (\<lparr>attempt_name = ''a_d4_ff8'', params = count_params (TinyTransformer 4 8),
             best_val_seq_acc = 1\<rparr>, [?m (Suc 0) L1, ?m 2 L2, ?m 3 L3], [(1, 2)], ())"
    by blast
  from early_stop [OF run] run show ?thesis by simp
qed

section \<open>The datasets\<close>

text \<open>The pairs that the first \<open>k\<close> double draws of a generator give.\<close>

fun draws :: "('g \<Rightarrow> int \<times> 'g) \<Rightarrow> 'g \<Rightarrow> nat \<Rightarrow> (int \<times> int) list" where
  "draws randrange g 0 = []"
| "draws randrange g (Suc k) =
     (case randrange g of (a, g1) \<Rightarrow>
        (case randrange g1 of (b, g2) \<Rightarrow> (a, b) # draws randrange g2 k))"

lemma build_loop_partial:
  assumes "build_loop rr n seen pairs g = Some y"
  shows "seen = set pairs \<and> distinct pairs \<and> length pairs \<le> n
         \<longrightarrow> length (fst y) = n \<and> distinct (fst y)"
proof (rule build_loop.raw_induct
    [where P = "\<lambda>rr n seen pairs g y. seen = set pairs \<and> distinct pairs \<and> length pairs \<le> n
                  \<longrightarrow> length (fst y) = n \<and> distinct (fst y)", OF _ assms])
  fix loop :: "('a \<Rightarrow> int \<times> 'a) \<Rightarrow> nat \<Rightarrow> (int \<times> int) set \<Rightarrow> (int \<times> int) list \<Rightarrow> 'a
                 \<Rightarrow> ((int \<times> int) list \<times> 'a) option"
    and rr n seen pairs g y
  assume IH: "\<And>rr n seen pairs g y. loop rr n seen pairs g = Some y \<Longrightarrow>
                seen = set pairs \<and> distinct pairs \<and> length pairs \<le> n
                \<longrightarrow> length (fst y) = n \<and> distinct (fst y)"
    and eq: "(if length pairs < n then
        (case rr g of (a, g1) \<Rightarrow>
           (case rr g1 of (b, g2) \<Rightarrow>
              if (a, b) \<in> seen then loop rr n seen pairs g2
              else loop rr n (insert (a, b) seen) (pairs @ [(a, b)]) g2))
      else Some (pairs, g)) = Some y"
  show "seen = set pairs \<and> distinct pairs \<and> length pairs \<le> n
         \<longrightarrow> length (fst y) = n \<and> distinct (fst y)"
  proof (intro impI, elim conjE)
    assume inv: "seen = set pairs" "distinct pairs" "length pairs \<le> n"
    show "length (fst y) = n \<and> distinct (fst y)"
    proof (cases "length pairs < n")
      case False
      with eq inv show ?thesis by auto
    next
      case True
      obtain a g1 where r1: "rr g = (a, g1)" by (cases "rr g")
      obtain b g2 where r2: "rr g1 = (b, g2)" by (cases "rr g1")
      show ?thesis
      proof (cases "(a, b) \<in> seen")
        case in_seen: True
        with eq True r1 r2 have "loop rr n seen pairs g2 = Some y" by simp
        from IH [OF this] inv show ?thesis by simp
      next
        case new: False
        with eq True r1 r2
        have "loop rr n (insert (a, b) seen) (pairs @ [(a, b)]) g2 = Some y" by simp
        from IH [OF this] inv new True show ?thesis by simp
      qed
    qed
  qed
qed

lemma build_loop_returns:
  assumes "n \<le> length pairs + card (set (draws rr g k) - seen)"
  shows "\<exists>y. build_loop rr n seen pairs g = Some y"
  using assms
proof (induction k arbitrary: g seen pairs)
  case 0
  then have "\<not> length pairs < n" by simp
  then show ?case by (subst build_loop.simps) simp
next
  case (Suc k)
  show ?case
  proof (cases "length pairs < n")
    case False
    then show ?thesis by (subst build_loop.simps) simp
  next
    case True
    obtain a g1 where r1: "rr g = (a, g1)" by (cases "rr g")
    obtain b g2 where r2: "rr g1 = (b, g2)" by (cases "rr g1")
    have d: "draws rr g (Suc k) = (a, b) # draws rr g2 k" by (simp add: r1 r2)
    show ?thesis
    proof (cases "(a, b) \<in> seen")
      case in_seen: True
      then have "set (draws rr g (Suc k)) - seen = set (draws rr g2 k) - seen"
        unfolding d by auto
      with Suc.prems have "n \<le> length pairs + card (set (draws rr g2 k) - seen)" by simp
      from Suc.IH [OF this] obtain y where "build_loop rr n seen pairs g2 = Some y" by blast
      with True in_seen r1 r2 show ?thesis by (subst build_loop.simps) simp
    next
      case new: False
      let ?D = "set (draws rr g2 k) - insert (a, b) seen"
      have "set (draws rr g (Suc k)) - seen \<subseteq> insert (a, b) ?D" unfolding d by auto
      then have "card (set (draws rr g (Suc k)) - seen) \<le> card (insert (a, b) ?D)"
        by (intro card_mono) simp_all
      also have "\<dots> \<le> Suc (card ?D)" by (simp add: card_insert_le_m1 card_insert_if)
      finally have "n \<le> length (pairs @ [(a, b)]) + card ?D" using Suc.prems by simp
      from Suc.IH [OF this] obtain y where
        "build_loop rr n (insert (a, b) seen) (pairs @ [(a, b)]) g2 = Some y" by blast
      with True new r1 r2 show ?thesis by (subst build_loop.simps) simp
    qed
  qed
qed

lemma prepare_cases:
  assumes "build_dataset rr n_train g_train = Some (train_pairs, g1)"
    and "build_dataset rr n_val g_val = Some (val_pairs, g2)"
  shows "set train_pairs \<inter> set val_pairs \<noteq> {}
           \<Longrightarrow> prepare rr n_train n_val g_train g_val = Some (Inl AssertionError)"
    and "prepare rr n_train n_val g_train g_val = Some (Inr r)
           \<Longrightarrow> r = (train_pairs, val_pairs) \<and> set train_pairs \<inter> set val_pairs = {}"
  using assms by (auto simp: prepare_def split: sum.splits if_splits)

text \<open>
  Claim C9. Whenever \<^verbatim>\<open>build_dataset(n, rng)\<close> returns, it returns exactly \<open>n\<close> pairs, no
  pair twice; and it does return when the generator gives \<open>n\<close> different pairs within
  some number \<open>k\<close> of draws. In \<^verbatim>\<open>main\<close>, when the training and validation sets
  overlap the run ends with AssertionError whatever the trainer is (nothing is trained),
  and when \<^verbatim>\<open>main\<close> gets through to its result the two sets are disjoint.
\<close>

theorem build_dataset_distinct_disjoint:
  "(build_dataset rr n g = Some (pairs, g') \<longrightarrow> length pairs = n \<and> distinct pairs)
   \<and> (n \<le> card (set (draws rr g k)) \<longrightarrow> (\<exists>ps gn. build_dataset rr n g = Some (ps, gn)))
   \<and> (build_dataset rr n_train g_train = Some (train_pairs, g1)
        \<and> build_dataset rr n_val g_val = Some (val_pairs, g2) \<longrightarrow>
        (set train_pairs \<inter> set val_pairs \<noteq> {} \<longrightarrow>
           main_with tr attempts rr n_train n_val g_train g_val st = Some (Inl AssertionError))
        \<and> (\<forall>r. main_with tr attempts rr n_train n_val g_train g_val st = Some (Inr r)
               \<longrightarrow> set train_pairs \<inter> set val_pairs = {}))"
proof (intro conjI impI allI)
  assume "build_dataset rr n g = Some (pairs, g')"
  then have "build_loop rr n {} [] g = Some (pairs, g')" by (simp add: build_dataset_def)
  from build_loop_partial [OF this] show "length pairs = n" "distinct pairs" by simp_all
next
  assume "n \<le> card (set (draws rr g k))"
  then have "n \<le> length ([] :: (int \<times> int) list) + card (set (draws rr g k) - {})" by simp
  from build_loop_returns [OF this] show "\<exists>ps gn. build_dataset rr n g = Some (ps, gn)"
    by (simp add: build_dataset_def)
next
  assume b: "build_dataset rr n_train g_train = Some (train_pairs, g1)
        \<and> build_dataset rr n_val g_val = Some (val_pairs, g2)"
  then have b1: "build_dataset rr n_train g_train = Some (train_pairs, g1)"
    and b2: "build_dataset rr n_val g_val = Some (val_pairs, g2)" by simp_all
  {
    assume "set train_pairs \<inter> set val_pairs \<noteq> {}"
    then have "prepare rr n_train n_val g_train g_val = Some (Inl AssertionError)"
      by (rule prepare_cases(1) [OF b1 b2])
    then show "main_with tr attempts rr n_train n_val g_train g_val st = Some (Inl AssertionError)"
      by (simp add: main_with_def)
  }
  {
    fix r assume m: "main_with tr attempts rr n_train n_val g_train g_val st = Some (Inr r)"
    then obtain p where "prepare rr n_train n_val g_train g_val = Some (Inr p)"
      by (auto simp: main_with_def split: option.splits sum.splits)
    from prepare_cases(2) [OF b1 b2 this] show "set train_pairs \<inter> set val_pairs = {}" by simp
  }
qed

text \<open>For concrete runs: a generator that replays a list of numbers, then gives 0 for ever.\<close>

definition list_rng :: "int list \<Rightarrow> int \<times> int list" where
  "list_rng g = (case g of [] \<Rightarrow> (0, []) | x # xs \<Rightarrow> (x, xs))"

theorem build_dataset_distinct_disjoint_witness:
  "build_dataset list_rng 2 [1, 2, 1, 2, 3, 4, 5] = Some ([(1, 2), (3, 4)], [5])
   \<and> length [(1, 2), (3, 4) :: int \<times> int] = 2
   \<and> main_with echo_trainer [a_d4_ff8] list_rng 1 1 [1, 2] [1, 2, 3, 4] ()
       = Some (Inl AssertionError)
   \<and> (\<exists>r. main_with echo_trainer [a_d4_ff8] list_rng 1 1 [1, 2] [3, 4] () = Some (Inr r))
   \<and> set [(1, 2)] \<inter> set [(3, 4) :: int \<times> int] = {}"
proof -
  have b: "build_dataset list_rng 2 [1, 2, 1, 2, 3, 4, 5] = Some ([(1, 2), (3, 4)], [5])"
    "build_dataset list_rng 1 [1, 2] = Some ([(1, 2)], [])"
    "build_dataset list_rng 1 [1, 2, 3, 4] = Some ([(1, 2)], [3, 4])"
    "build_dataset list_rng 1 [3, 4] = Some ([(3, 4)], [])"
    by code_simp+
  have v: "validate_dataset [(1, 2)] = Inr ()" "validate_dataset [(3, 4)] = Inr ()"
    by code_simp+
  have p: "prepare list_rng 1 1 [1, 2] [3, 4] = Some (Inr ([(1, 2)], [(3, 4)]))"
    using b v by (simp add: prepare_def)
  from echo_run obtain out history where
    "train_attempt echo_trainer a_d4_ff8 [(1, 2)] [(3, 4)] () = Inr (out, history, [(1, 2)], ())"
    by blast
  then have m: "\<exists>r. main_with echo_trainer [a_d4_ff8] list_rng 1 1 [1, 2] [3, 4] () = Some (Inr r)"
    using p by (simp add: main_with_def run_search_best_def)
  from build_dataset_distinct_disjoint
    [where rr = list_rng and n = 2 and g = "[1, 2, 1, 2, 3, 4, 5]" and pairs = "[(1, 2), (3, 4)]"
       and g' = "[5]" and k = 3 and n_train = 1 and g_train = "[1, 2]"
       and train_pairs = "[(1, 2)]" and ?g1.0 = "[]" and n_val = 1 and g_val = "[1, 2, 3, 4]"
       and val_pairs = "[(1, 2)]" and ?g2.0 = "[3, 4]" and tr = echo_trainer
       and attempts = "[a_d4_ff8]" and st = "()"]
    b m
  show ?thesis by simp
qed

section \<open>The parameter budget: before or after training\<close>

lemma column_search_filter:
  "column_search fit attempts w results
   = column_search fit (filter (\<lambda>a. count_params (M (a_d a)) < 491) attempts) w results"
  by (induction attempts arbitrary: w results) (auto simp: Let_def split: prod.splits)

lemma column_search_params:
  "\<forall>r \<in> set results. cr_params r < 491
   \<Longrightarrow> \<forall>r \<in> set (fst (column_search fit attempts w results)). cr_params r < 491"
proof (induction attempts arbitrary: w results)
  case Nil
  then show ?case by simp
next
  case (Cons a attempts)
  show ?case
  proof (cases "count_params (M (a_d a)) \<ge> 491")
    case True
    with Cons.IH [OF Cons.prems] show ?thesis by (simp add: Let_def)
  next
    case False
    obtain col full w1 where f: "fit a w = ((col, full), w1)" by (cases "fit a w") auto
    let ?r = "\<lparr>cr_attempt = a, cr_params = count_params (M (a_d a)), column_acc = col,
               full_10digit_acc = full\<rparr>"
    have "\<forall>r \<in> set (results @ [?r]). cr_params r < 491" using Cons.prems False by simp
    from Cons.IH [OF this] False f show ?thesis by (simp add: Let_def)
  qed
qed

lemma run_all_configs:
  "run_all fit cfgs w results = (results', w')
   \<Longrightarrow> map (\<lambda>r. (r_d_model r, r_d_ff r, r_n_layers r)) results'
       = map (\<lambda>r. (r_d_model r, r_d_ff r, r_n_layers r)) results
         @ map (\<lambda>c. (c_d_model c, c_d_ff c, c_n_layers c)) cfgs"
proof (induction cfgs arbitrary: w results)
  case Nil
  then show ?case by simp
next
  case (Cons c cfgs)
  obtain r w1 where r: "run_attempt fit c w = (r, w1)" by (cases "run_attempt fit c w")
  then have f: "r_d_model r = c_d_model c" "r_d_ff r = c_d_ff c" "r_n_layers r = c_n_layers c"
    by (auto simp: run_attempt_def Let_def split: prod.splits)
  from Cons.prems r have "run_all fit cfgs w1 (results @ [r]) = (results', w')" by simp
  from Cons.IH [OF this] f show ?case by simp
qed

lemma run_attempts_params:
  "run_attempts tr attempts train_pairs val_pairs st summaries = Inr (summaries', st')
   \<Longrightarrow> map params summaries'
       = map params summaries
         @ map (\<lambda>a. count_params (TinyTransformer (d_model a) (d_ff a))) attempts"
proof (induction attempts arbitrary: train_pairs st summaries)
  case Nil
  then show ?case by simp
next
  case (Cons a attempts)
  from Cons.prems obtain result history tp st1 where
    t: "train_attempt tr a train_pairs val_pairs st = Inr (result, history, tp, st1)"
    and r: "run_attempts tr attempts tp val_pairs st1 (summaries @ [result]) = Inr (summaries', st')"
    by (auto split: sum.splits)
  from t have "params result = count_params (TinyTransformer (d_model a) (d_ff a))"
    by (auto simp: train_attempt_def Let_def split: sum.splits prod.splits)
  with Cons.IH [OF r] show ?case by simp
qed

lemma generate_report_under:
  assumes "generate_report_best summaries = Inr best"
  shows "params best < 491"
proof -
  from assms have "best \<in> set (filter (\<lambda>r. best_val_seq_acc r \<ge> 0.999)
                                (filter (\<lambda>r. params r < 491) summaries))"
    unfolding generate_report_best_def Let_def by (rule py_min_least(1))
  then show ?thesis by simp
qed

lemma run_attempts_echo:
  assumes "\<forall>a \<in> set attempts. epochs a = 12 \<and> batch_size a = 256"
  shows "run_attempts echo_trainer attempts [(1, 2)] [(3, 4)] () summaries
         = Inr (summaries
                @ map (\<lambda>a. \<lparr>attempt_name = name a,
                              params = count_params (TinyTransformer (d_model a) (d_ff a)),
                              best_val_seq_acc = 1\<rparr>) attempts, ())"
  using assms
proof (induction attempts arbitrary: summaries)
  case Nil
  then show ?case by simp
next
  case (Cons a attempts)
  then have "epochs a = 12" "batch_size a = 256" by simp_all
  from echo_run_any [OF this] obtain history where
    "train_attempt echo_trainer a [(1, 2)] [(3, 4)] ()
     = Inr (\<lparr>attempt_name = name a,
             params = count_params (TinyTransformer (d_model a) (d_ff a)),
             best_val_seq_acc = 1\<rparr>, history, [(1, 2)], ())"
    by blast
  with Cons show ?case by simp
qed

definition echo_summaries :: "summary list" where
  "echo_summaries =
     [\<lparr>attempt_name = ''a_d4_ff8'', params = 236, best_val_seq_acc = 1\<rparr>,
      \<lparr>attempt_name = ''b_d5_ff10'', params = 335, best_val_seq_acc = 1\<rparr>,
      \<lparr>attempt_name = ''c_d6_ff12'', params = 450, best_val_seq_acc = 1\<rparr>,
      \<lparr>attempt_name = ''d_d6_ff14'', params = 476, best_val_seq_acc = 1\<rparr>,
      \<lparr>attempt_name = ''e_d6_ff16'', params = 502, best_val_seq_acc = 1\<rparr>]"

lemma attempts_of_main_names:
  "map (\<lambda>a. (name a, count_params (TinyTransformer (d_model a) (d_ff a)))) attempts_of_main
     = [(''a_d4_ff8'', 236), (''b_d5_ff10'', 335), (''c_d6_ff12'', 450), (''d_d6_ff14'', 476),
        (''e_d6_ff16'', 502)]"
  by (simp add: attempts_of_main_def count_params_def TinyTransformer_def nn_Embedding_def
      nn_LayerNorm_def nn_Linear_def numel_def VOCAB_14 SEQ_LEN_def)

lemma echo_main_run:
  "run_attempts echo_trainer attempts_of_main [(1, 2)] [(3, 4)] () [] = Inr (echo_summaries, ())"
proof -
  have e: "\<forall>a \<in> set attempts_of_main. epochs a = 12 \<and> batch_size a = 256"
    by (simp add: attempts_of_main_def)
  have "map (\<lambda>a. \<lparr>attempt_name = name a,
                   params = count_params (TinyTransformer (d_model a) (d_ff a)),
                   best_val_seq_acc = 1\<rparr>) attempts_of_main
        = map (\<lambda>(n, p). \<lparr>attempt_name = n, params = p, best_val_seq_acc = 1\<rparr>)
            (map (\<lambda>a. (name a, count_params (TinyTransformer (d_model a) (d_ff a))))
               attempts_of_main)"
    by simp
  then show ?thesis
    unfolding run_attempts_echo [OF e] attempts_of_main_names by (simp add: echo_summaries_def)
qed

lemma echo_report:
  "generate_report_best echo_summaries
   = Inr \<lparr>attempt_name = ''a_d4_ff8'', params = 236, best_val_seq_acc = 1\<rparr>"
  by (simp add: generate_report_best_def echo_summaries_def)

text \<open>
  Claim C8, as stated, fails on run\_search.py: the last attempt of the list of \<^verbatim>\<open>main\<close>,
  \<^verbatim>\<open>e_d6_ff16\<close>, has 502 parameters, and the loop of \<^verbatim>\<open>main\<close> trains it like the four
  others (here on one training pair and one validation pair, with a trainer that
  predicts its input); only generate\_report.py, which reads the summaries afterwards,
  leaves it out.
\<close>

theorem budget_filter_counterexample:
  "map (\<lambda>a. (name a, count_params (TinyTransformer (d_model a) (d_ff a)))) attempts_of_main
     = [(''a_d4_ff8'', 236), (''b_d5_ff10'', 335), (''c_d6_ff12'', 450), (''d_d6_ff14'', 476),
        (''e_d6_ff16'', 502)]
   \<and> run_attempts echo_trainer attempts_of_main [(1, 2)] [(3, 4)] () []
     = Inr ([\<lparr>attempt_name = ''a_d4_ff8'', params = 236, best_val_seq_acc = 1\<rparr>,
             \<lparr>attempt_name = ''b_d5_ff10'', params = 335, best_val_seq_acc = 1\<rparr>,
             \<lparr>attempt_name = ''c_d6_ff12'', params = 450, best_val_seq_acc = 1\<rparr>,
             \<lparr>attempt_name = ''d_d6_ff14'', params = 476, best_val_seq_acc = 1\<rparr>,
             \<lparr>attempt_name = ''e_d6_ff16'', params = 502, best_val_seq_acc = 1\<rparr>], ())
   \<and> generate_report_best
       [\<lparr>attempt_name = ''a_d4_ff8'', params = 236, best_val_seq_acc = 1\<rparr>,
        \<lparr>attempt_name = ''b_d5_ff10'', params = 335, best_val_seq_acc = 1\<rparr>,
        \<lparr>attempt_name = ''c_d6_ff12'', params = 450, best_val_seq_acc = 1\<rparr>,
        \<lparr>attempt_name = ''d_d6_ff14'', params = 476, best_val_seq_acc = 1\<rparr>,
        \<lparr>attempt_name = ''e_d6_ff16'', params = 502, best_val_seq_acc = 1\<rparr>]
     = Inr \<lparr>attempt_name = ''a_d4_ff8'', params = 236, best_val_seq_acc = 1\<rparr>"
  using attempts_of_main_names echo_main_run echo_report
  by (simp add: echo_summaries_def)

text \<open>
  Claim C8, amended. In research/addition\_tiny/search\_tiny\_transformer.py a
  configuration whose parameter count is 491 or more is skipped before it is trained:
  the search goes on with the next one, with the state and the results untouched, so
  the outcome is that of the search over the configurations under the budget, and every
  result has fewer than 491 parameters. In tiny\_addition\_search.py every configuration
  is trained and has a result, and only the selection afterwards is restricted to fewer
  than 491 parameters. In run\_search.py every attempt is trained and has a summary
  whatever its parameter count, and only the report made afterwards by
  generate\_report.py is restricted to fewer than 491 parameters.
\<close>

theorem budget_filter:
  "column_search fit attempts w results
     = column_search fit (filter (\<lambda>a. count_params (M (a_d a)) < 491) attempts) w results
   \<and> (count_params (M (a_d a)) \<ge> 491 \<longrightarrow>
        column_search fit (a # rest) w results = column_search fit rest w results)
   \<and> (\<forall>r \<in> set (fst (column_search fit attempts w [])). cr_params r < 491)
   \<and> (search_main fit2 cfgs w2 = (Inr selected, results2, w2') \<longrightarrow>
        r_params selected < 491
        \<and> map (\<lambda>r. (r_d_model r, r_d_ff r, r_n_layers r)) results2
            = map (\<lambda>c. (c_d_model c, c_d_ff c, c_n_layers c)) cfgs)
   \<and> (run_attempts tr attempts3 train_pairs val_pairs st [] = Inr (summaries, st') \<longrightarrow>
        map params summaries
        = map (\<lambda>a. count_params (TinyTransformer (d_model a) (d_ff a))) attempts3)
   \<and> (generate_report_best summaries = Inr best \<longrightarrow> params best < 491)"
proof (intro conjI impI)
  show "column_search fit attempts w results
     = column_search fit (filter (\<lambda>a. count_params (M (a_d a)) < 491) attempts) w results"
    by (rule column_search_filter)
  show "\<forall>r \<in> set (fst (column_search fit attempts w [])). cr_params r < 491"
    by (rule column_search_params) simp
next
  assume "count_params (M (a_d a)) \<ge> 491"
  then show "column_search fit (a # rest) w results = column_search fit rest w results"
    by (simp add: Let_def)
next
  assume m: "search_main fit2 cfgs w2 = (Inr selected, results2, w2')"
  then have s: "select_valid results2 = Inr selected" and r: "run_all fit2 cfgs w2 [] = (results2, w2')"
    by (auto simp: search_main_def split: prod.splits)
  from s show "r_params selected < 491" by (rule select_valid_best(2))
  from run_all_configs [OF r]
  show "map (\<lambda>r. (r_d_model r, r_d_ff r, r_n_layers r)) results2
            = map (\<lambda>c. (c_d_model c, c_d_ff c, c_n_layers c)) cfgs" by simp
next
  assume "run_attempts tr attempts3 train_pairs val_pairs st [] = Inr (summaries, st')"
  from run_attempts_params [OF this]
  show "map params summaries
        = map (\<lambda>a. count_params (TinyTransformer (d_model a) (d_ff a))) attempts3" by simp
next
  assume "generate_report_best summaries = Inr best"
  then show "params best < 491" by (rule generate_report_under)
qed

theorem budget_filter_witness:
  "count_params (M 8) = 564
   \<and> column_search (\<lambda>a w. ((1, 1), w @ [a_name a]))
       [\<lparr>a_name = ''a1'', a_d = 2, a_lr = 0.03, a_steps = 800\<rparr>,
        \<lparr>a_name = ''a8'', a_d = 8, a_lr = 0.03, a_steps = 800\<rparr>,
        \<lparr>a_name = ''a4'', a_d = 5, a_lr = 0.02, a_steps = 1200\<rparr>] [] []
     = ([\<lparr>cr_attempt = \<lparr>a_name = ''a1'', a_d = 2, a_lr = 0.03, a_steps = 800\<rparr>,
           cr_params = 102, column_acc = 1, full_10digit_acc = 1\<rparr>,
         \<lparr>cr_attempt = \<lparr>a_name = ''a4'', a_d = 5, a_lr = 0.02, a_steps = 1200\<rparr>,
           cr_params = 297, column_acc = 1, full_10digit_acc = 1\<rparr>],
        [''a1'', ''a4''])
   \<and> column_search (\<lambda>a w. ((1, 1), w @ [a_name a]))
       [\<lparr>a_name = ''a8'', a_d = 8, a_lr = 0.03, a_steps = 800\<rparr>,
        \<lparr>a_name = ''a4'', a_d = 5, a_lr = 0.02, a_steps = 1200\<rparr>] [''a1''] []
     = column_search (\<lambda>a w. ((1, 1), w @ [a_name a]))
       [\<lparr>a_name = ''a4'', a_d = 5, a_lr = 0.02, a_steps = 1200\<rparr>] [''a1''] []
   \<and> run_attempts echo_trainer attempts_of_main [(1, 2)] [(3, 4)] () [] = Inr (echo_summaries, ())
   \<and> map params echo_summaries = [236, 335, 450, 476, 502]
   \<and> generate_report_best echo_summaries
     = Inr \<lparr>attempt_name = ''a_d4_ff8'', params = 236, best_val_seq_acc = 1\<rparr>
   \<and> (236 :: nat) < 491"
proof -
  have p: "count_params (M 8) = 564" "count_params (M 2) = 102" "count_params (M 5) = 297"
    by (simp_all add: count_params_def M_def nn_Embedding_def nn_LayerNorm_def
        nn_MultiheadAttention_def nn_Linear_def numel_def)
  have c: "column_search (\<lambda>a w. ((1, 1), w @ [a_name a]))
       [\<lparr>a_name = ''a1'', a_d = 2, a_lr = 0.03, a_steps = 800\<rparr>,
        \<lparr>a_name = ''a8'', a_d = 8, a_lr = 0.03, a_steps = 800\<rparr>,
        \<lparr>a_name = ''a4'', a_d = 5, a_lr = 0.02, a_steps = 1200\<rparr>] [] []
     = ([\<lparr>cr_attempt = \<lparr>a_name = ''a1'', a_d = 2, a_lr = 0.03, a_steps = 800\<rparr>,
           cr_params = 102, column_acc = 1, full_10digit_acc = 1\<rparr>,
         \<lparr>cr_attempt = \<lparr>a_name = ''a4'', a_d = 5, a_lr = 0.02, a_steps = 1200\<rparr>,
           cr_params = 297, column_acc = 1, full_10digit_acc = 1\<rparr>],
        [''a1'', ''a4''])"
    by (simp add: p Let_def)
  have ps: "map params echo_summaries = [236, 335, 450, 476, 502]"
    by (simp add: echo_summaries_def)
  from budget_filter
    [where a = "\<lparr>a_name = ''a8'', a_d = 8, a_lr = 0.03, a_steps = 800\<rparr>"
       and rest = "[\<lparr>a_name = ''a4'', a_d = 5, a_lr = 0.02, a_steps = 1200\<rparr>]"
       and fit = "\<lambda>a w. ((1, 1), w @ [a_name a])" and w = "[''a1'']" and results = "[]"
       and tr = echo_trainer and ?attempts3.0 = attempts_of_main and train_pairs = "[(1, 2)]"
       and val_pairs = "[(3, 4)]" and st = "()" and summaries = echo_summaries and st' = "()"
       and best = "\<lparr>attempt_name = ''a_d4_ff8'', params = 236, best_val_seq_acc = 1\<rparr>"]
    p c echo_main_run echo_report ps
  show ?thesis by simp
qed

section \<open>Causality of the attention of run\_search.py\<close>

text \<open>Two lists of rows of the same length whose rows agree up to position \<open>i\<close>.\<close>

definition agree_upto :: "nat \<Rightarrow> 'a list \<Rightarrow> 'a list \<Rightarrow> bool" where
  "agree_upto i A B \<longleftrightarrow> length A = length B \<and> (\<forall>j < length A. j \<le> i \<longrightarrow> A ! j = B ! j)"

lemma agree_upto_map: "agree_upto i A B \<Longrightarrow> agree_upto i (map f A) (map f B)"
  by (simp add: agree_upto_def)

lemma agree_upto_madd:
  "agree_upto i A B \<Longrightarrow> agree_upto i C D \<Longrightarrow> agree_upto i (madd A C) (madd B D)"
  by (simp add: agree_upto_def madd_def)

lemma agree_upto_ncols: "agree_upto i A B \<Longrightarrow> ncols A = ncols B"
  by (cases A; cases B) (auto simp: agree_upto_def ncols_def)

lemma agree_upto_rows: "agree_upto i A B \<Longrightarrow> agree_upto i (matmul A W) (matmul B W)"
  by (simp add: agree_upto_def matmul_def)

lemma agree_upto_less: "agree_upto i A B \<Longrightarrow> j \<le> i \<Longrightarrow> agree_upto j A B"
  by (simp add: agree_upto_def)


lemma weighted_sum_agree:
  fixes a :: vec and B B' :: mat
  assumes "length B = length B'"
    and "\<forall>m < length B. m < length a \<longrightarrow> a ! m = 0 \<or> B ! m ! c = B' ! m ! c"
  shows "map (\<lambda>(w, row). w * row ! c) (zip a B) = map (\<lambda>(w, row). w * row ! c) (zip a B')"
proof (rule nth_equalityI)
  show "length (map (\<lambda>(w, row). w * row ! c) (zip a B))
        = length (map (\<lambda>(w, row). w * row ! c) (zip a B'))"
    using assms(1) by simp
  fix m assume "m < length (map (\<lambda>(w, row). w * row ! c) (zip a B))"
  then have m: "m < length a" "m < length B" by simp_all
  with assms(2) have "a ! m = 0 \<or> B ! m ! c = B' ! m ! c" by simp
  then show "map (\<lambda>(w, row). w * row ! c) (zip a B) ! m
             = map (\<lambda>(w, row). w * row ! c) (zip a B') ! m"
    using m assms(1) by auto
qed

text \<open>The scores of one row after scaling and masking, and its attention weights.\<close>

definition masked_scores :: "mat \<Rightarrow> mat \<Rightarrow> nat \<Rightarrow> real option list" where
  "masked_scores q k j =
     map (\<lambda>c. if j + 1 \<le> c then None
               else Some (sum_list (map (\<lambda>(w, row). w * row ! c) (zip (q ! j) (transpose_m k)))
                          / sqrt (real (ncols q))))
       [0..<ncols (transpose_m k)]"

lemma ncols_map_upt: "A \<noteq> [] \<Longrightarrow> ncols (map (\<lambda>a. map (f a) [0..<n]) A) = n"
  by (cases A) (simp_all add: ncols_def)

lemma attention_row:
  assumes "j < length q"
  shows "attention q k v ! j
         = map (\<lambda>c. sum_list (map (\<lambda>(w, row). w * row ! c) (zip (softmax (masked_scores q k j)) v)))
             [0..<ncols v]"
proof -
  let ?n = "ncols (transpose_m k)"
  let ?S = "map (map (\<lambda>s. s / sqrt (real (ncols q)))) (matmul q (transpose_m k))"
  have q: "q \<noteq> []" using assms by auto
  have S: "?S = map (\<lambda>a. map (\<lambda>c. sum_list (map (\<lambda>(w, row). w * row ! c) (zip a (transpose_m k)))
                             / sqrt (real (ncols q))) [0..<?n]) q"
    by (simp add: matmul_def)
  have nS: "ncols ?S = ?n" unfolding S using q by (rule ncols_map_upt)
  have lS: "length ?S = length q" by (simp add: matmul_def)
  have row: "masked_fill ?S (triu_mask (length ?S) (ncols ?S)) ! j = masked_scores q k j"
    unfolding nS lS using assms
    by (simp add: S masked_fill_def triu_mask_def masked_scores_def zip_map_map
        zip_same_conv_map o_def del: upt_Suc)
  have "length (masked_fill ?S (triu_mask (length ?S) (ncols ?S))) = length q"
    by (simp add: masked_fill_def triu_mask_def matmul_def)
  then show ?thesis
    using assms row by (simp add: attention_def Let_def matmul_def)
qed

lemma softmax_masked_zero:
  assumes "c < length row" and "row ! c = None"
  shows "softmax row ! c = 0"
  using assms by (simp add: softmax_def Let_def)

lemma ncols_Cons: "ncols (r # A) = length r"
  by (simp add: ncols_def)

lemma ncols_transpose_m: "ncols (transpose_m A) = (if ncols A = 0 then 0 else length A)"
proof (cases "ncols A")
  case 0
  then have "transpose_m A = []" by (simp add: transpose_m_def)
  with 0 show ?thesis by (simp add: ncols_def)
next
  case (Suc n)
  then have "[0..<ncols A] = 0 # [1..<ncols A]" by (simp add: upt_conv_Cons)
  then have "transpose_m A = map (\<lambda>row. row ! 0) A # map (\<lambda>c. map (\<lambda>row. row ! c) A) [1..<ncols A]"
    by (simp add: transpose_m_def)
  with Suc show ?thesis by (simp add: ncols_Cons)
qed

lemma masked_scores_agree:
  assumes "agree_upto i q q'" and "agree_upto i k k'" and "length k = length q"
    and "j \<le> i" and "j < length q"
  shows "masked_scores q k j = masked_scores q' k' j"
proof -
  have nk: "ncols k = ncols k'" using assms(2) by (rule agree_upto_ncols)
  have lk: "length k = length k'" using assms(2) by (simp add: agree_upto_def)
  have nq: "ncols q = ncols q'" using assms(1) by (rule agree_upto_ncols)
  have qj: "q ! j = q' ! j" using assms(1,4,5) by (simp add: agree_upto_def)
  have lT: "length (transpose_m k) = length (transpose_m k')" by (simp add: transpose_m_def nk)
  have nT: "ncols (transpose_m k) = ncols (transpose_m k')"
    by (simp add: ncols_transpose_m nk lk)
  have "ncols (transpose_m k) \<le> length k"
    by (simp add: ncols_transpose_m)
  then have bound: "\<And>c. c < ncols (transpose_m k) \<Longrightarrow> c < length k" by simp
  show ?thesis
    unfolding masked_scores_def nT [symmetric] nq [symmetric] qj [symmetric]
  proof (rule map_cong [OF refl])
    fix c assume "c \<in> set [0..<ncols (transpose_m k)]"
    then have c: "c < length k" using bound by simp
    show "(if j + 1 \<le> c then None
           else Some (sum_list (map (\<lambda>(w, row). w * row ! c) (zip (q ! j) (transpose_m k)))
                      / sqrt (real (ncols q))))
        = (if j + 1 \<le> c then None
           else Some (sum_list (map (\<lambda>(w, row). w * row ! c) (zip (q ! j) (transpose_m k')))
                      / sqrt (real (ncols q))))"
    proof (cases "j + 1 \<le> c")
      case True
      then show ?thesis by simp
    next
      case False
      then have "c \<le> i" using assms(4) by simp
      with assms(2) c have kc: "k ! c = k' ! c" by (simp add: agree_upto_def)
      have "\<forall>m < length (transpose_m k). m < length (q ! j) \<longrightarrow>
              q ! j ! m = 0 \<or> transpose_m k ! m ! c = transpose_m k' ! m ! c"
        using c kc lk by (simp add: transpose_m_def nk)
      from weighted_sum_agree [OF lT this] False show ?thesis by simp
    qed
  qed
qed

lemma attention_agree:
  assumes "agree_upto i q q'" and "agree_upto i k k'" and "agree_upto i v v'"
    and "length k = length q" and "length v = length q"
  shows "agree_upto i (attention q k v) (attention q' k' v')"
proof -
  have lq: "length q = length q'" using assms(1) by (simp add: agree_upto_def)
  have lv: "length v = length v'" using assms(3) by (simp add: agree_upto_def)
  have nv: "ncols v = ncols v'" using assms(3) by (rule agree_upto_ncols)
  have la: "length (attention q k v) = length q" "length (attention q' k' v') = length q'"
    by (simp_all add: attention_def Let_def matmul_def masked_fill_def triu_mask_def)
  {
    fix j assume j: "j < length q" "j \<le> i"
    let ?a = "softmax (masked_scores q k j)"
    have ms: "masked_scores q k j = masked_scores q' k' j"
      using assms(1,2,4) j(2,1) by (rule masked_scores_agree)
    have zero: "\<forall>m < length v. m < length ?a \<longrightarrow> ?a ! m = 0 \<or> v ! m = v' ! m"
    proof (intro allI impI)
      fix m assume m: "m < length v" "m < length ?a"
      show "?a ! m = 0 \<or> v ! m = v' ! m"
      proof (cases "m \<le> j")
        case True
        with j(2) m(1) assms(3) show ?thesis by (simp add: agree_upto_def)
      next
        case False
        have lm: "m < length (masked_scores q k j)" using m(2) by (simp add: softmax_def Let_def)
        then have "masked_scores q k j ! m = None"
          using False by (simp add: masked_scores_def)
        with lm have "?a ! m = 0" by (rule softmax_masked_zero)
        then show ?thesis ..
      qed
    qed
    have "attention q k v ! j = attention q' k' v' ! j"
      unfolding attention_row [OF j(1)] attention_row [OF j(1) [unfolded lq]] ms [symmetric]
        nv [symmetric]
    proof (rule map_cong [OF refl])
      fix c
      have "\<forall>m < length v. m < length ?a \<longrightarrow> ?a ! m = 0 \<or> v ! m ! c = v' ! m ! c"
        using zero by auto
      from weighted_sum_agree [OF lv this]
      show "sum_list (map (\<lambda>(w, row). w * row ! c) (zip ?a v))
            = sum_list (map (\<lambda>(w, row). w * row ! c) (zip ?a v'))" by simp
    qed
  }
  then show ?thesis using la lq by (simp add: agree_upto_def)
qed


lemma embedding_agree:
  assumes "length x = length x'" and "take (Suc i) x = take (Suc i) x'"
    and "embedding W x = Inr h" and "embedding W x' = Inr h'"
  shows "agree_upto i h h'"
proof -
  have h: "h = map (\<lambda>t. W ! t) x" "h' = map (\<lambda>t. W ! t) x'"
    using assms(3,4) by (auto simp: embedding_def split: if_splits)
  {
    fix j assume j: "j < length x" "j \<le> i"
    then have "x ! j = take (Suc i) x ! j" by simp
    also have "\<dots> = x' ! j" using j by (simp add: assms(2))
    finally have "x ! j = x' ! j" .
  }
  then show ?thesis using assms(1) by (simp add: agree_upto_def h)
qed

lemma forward_seq_agree:
  assumes "length x = length x'" and "take (Suc i) x = take (Suc i) x'"
    and "forward_seq P x = Inr L" and "forward_seq P x' = Inr L'"
  shows "agree_upto i L L'"
proof -
  from assms(3) obtain h where e: "embedding (tok_emb P) x = Inr h"
    by (auto simp: forward_seq_def split: sum.splits)
  from assms(4) obtain h' where e': "embedding (tok_emb P) x' = Inr h'"
    by (auto simp: forward_seq_def split: sum.splits)
  have a0: "agree_upto i h h'" using assms(1,2) e e' by (rule embedding_agree)
  define n1 where "n1 = map (layer_norm (ln1_weight P) (ln1_bias P))"
  define fq where "fq = map (apply_linear (q_weight P) (q_bias P))"
  define fk where "fk = map (apply_linear (k_weight P) (k_bias P))"
  define fv where "fv = map (apply_linear (v_weight P) (v_bias P))"
  define fp where "fp = map (apply_linear (proj_weight P) (proj_bias P))"
  define n2 where "n2 = map (layer_norm (ln2_weight P) (ln2_bias P))"
  define ff where "ff = (\<lambda>h. map (apply_linear (fc2_weight P) (fc2_bias P))
                         (map (map (gelu P)) (map (apply_linear (fc1_weight P) (fc1_bias P)) h)))"
  define nf where "nf = map (layer_norm (ln_f_weight P) (ln_f_bias P))"
  define blk where "blk = (\<lambda>h. let a = madd h (fp (attention (fq (n1 h)) (fk (n1 h)) (fv (n1 h))))
                               in matmul (nf (madd a (ff (n2 a)))) (transpose_m (tok_emb P)))"
  have L: "L = blk h" using assms(3) e
    by (simp add: forward_seq_def blk_def n1_def fq_def fk_def fv_def fp_def n2_def ff_def nf_def
        Let_def)
  have L': "L' = blk h'" using assms(4) e'
    by (simp add: forward_seq_def blk_def n1_def fq_def fk_def fv_def fp_def n2_def ff_def nf_def
        Let_def)
  have a1: "agree_upto i (n1 h) (n1 h')" unfolding n1_def using a0 by (rule agree_upto_map)
  have aq: "agree_upto i (fq (n1 h)) (fq (n1 h'))" unfolding fq_def using a1 by (rule agree_upto_map)
  have ak: "agree_upto i (fk (n1 h)) (fk (n1 h'))" unfolding fk_def using a1 by (rule agree_upto_map)
  have av: "agree_upto i (fv (n1 h)) (fv (n1 h'))" unfolding fv_def using a1 by (rule agree_upto_map)
  have "agree_upto i (attention (fq (n1 h)) (fk (n1 h)) (fv (n1 h)))
                     (attention (fq (n1 h')) (fk (n1 h')) (fv (n1 h')))"
    using aq ak av by (rule attention_agree) (simp_all add: fq_def fk_def fv_def n1_def)
  then have "agree_upto i (fp (attention (fq (n1 h)) (fk (n1 h)) (fv (n1 h))))
                          (fp (attention (fq (n1 h')) (fk (n1 h')) (fv (n1 h'))))"
    unfolding fp_def by (rule agree_upto_map)
  with a0 have a2: "agree_upto i (madd h (fp (attention (fq (n1 h)) (fk (n1 h)) (fv (n1 h)))))
                                 (madd h' (fp (attention (fq (n1 h')) (fk (n1 h')) (fv (n1 h')))))"
    by (rule agree_upto_madd)
  let ?a = "madd h (fp (attention (fq (n1 h)) (fk (n1 h)) (fv (n1 h))))"
  let ?a' = "madd h' (fp (attention (fq (n1 h')) (fk (n1 h')) (fv (n1 h'))))"
  have "agree_upto i (n2 ?a) (n2 ?a')" unfolding n2_def using a2 by (rule agree_upto_map)
  then have "agree_upto i (ff (n2 ?a)) (ff (n2 ?a'))"
    unfolding ff_def by (intro agree_upto_map)
  with a2 have "agree_upto i (madd ?a (ff (n2 ?a))) (madd ?a' (ff (n2 ?a')))"
    by (rule agree_upto_madd)
  then have "agree_upto i (nf (madd ?a (ff (n2 ?a)))) (nf (madd ?a' (ff (n2 ?a'))))"
    unfolding nf_def by (rule agree_upto_map)
  then have "agree_upto i (matmul (nf (madd ?a (ff (n2 ?a)))) (transpose_m (tok_emb P)))
                          (matmul (nf (madd ?a' (ff (n2 ?a')))) (transpose_m (tok_emb P)))"
    by (rule agree_upto_rows)
  then show ?thesis by (simp add: L L' blk_def Let_def)
qed

lemma forward_seq_defined:
  assumes "\<forall>t \<in> set x. t < length (tok_emb P)"
  shows "\<exists>L. forward_seq P x = Inr L \<and> length L = length x"
  using assms
  by (simp add: forward_seq_def embedding_def Let_def matmul_def madd_def attention_def
      masked_fill_def triu_mask_def)

text \<open>
  Claim C4, amended to the model it holds for. In \<^verbatim>\<open>TinyTransformer.forward\<close> of
  run\_search.py, for every sequence and every position \<open>i\<close>, the logits at \<open>i\<close> are the
  same when tokens at positions after \<open>i\<close> are replaced by other tokens: two sequences
  of the same length that agree up to \<open>i\<close> have the same logits at \<open>i\<close>.
\<close>

theorem forward_causal:
  assumes "length x = length x'" and "take (Suc i) x = take (Suc i) x'" and "i < length x"
    and "forward_seq P x = Inr L" and "forward_seq P x' = Inr L'"
  shows "L ! i = L' ! i"
proof -
  have "agree_upto i L L'" using assms(1,2,4,5) by (rule forward_seq_agree)
  moreover have "length L = length x"
    using forward_seq_defined [of x P] assms(4) by (auto simp: forward_seq_def embedding_def split: if_splits)
  ultimately show ?thesis using assms(3) by (simp add: agree_upto_def)
qed

text \<open>For a concrete run: weights of width 1, every matrix entry 1, and the identity for gelu.\<close>

definition unit_weights :: weights where
  "unit_weights =
     \<lparr>tok_emb = map (\<lambda>t. [real t]) [0..<14],
      ln1_weight = [1], ln1_bias = [0],
      q_weight = [[1]], q_bias = [0], k_weight = [[1]], k_bias = [0],
      v_weight = [[1]], v_bias = [0], proj_weight = [[1]], proj_bias = [0],
      ln2_weight = [1], ln2_bias = [0],
      fc1_weight = [[1]], fc1_bias = [0], fc2_weight = [[1]], fc2_bias = [0],
      ln_f_weight = [1], ln_f_bias = [0],
      gelu = (\<lambda>y. y)\<rparr>"

theorem forward_causal_witness:
  "\<exists>L L'. forward_seq unit_weights [0, 5, 4, 1] = Inr L
          \<and> forward_seq unit_weights [0, 5, 9, 2] = Inr L'
          \<and> L ! 1 = L' ! 1"
proof -
  have t: "length (tok_emb unit_weights) = 14" by (simp add: unit_weights_def)
  obtain L where L: "forward_seq unit_weights [0, 5, 4, 1] = Inr L"
    using forward_seq_defined [of "[0, 5, 4, 1]" unit_weights] t by auto
  obtain L' where L': "forward_seq unit_weights [0, 5, 9, 2] = Inr L'"
    using forward_seq_defined [of "[0, 5, 9, 2]" unit_weights] t by auto
  have "L ! 1 = L' ! 1"
    by (rule forward_causal [OF _ _ _ L L']) simp_all
  with L L' show ?thesis by blast
qed

section \<open>What the loss and the evaluation of run\_search.py compare\<close>

























section \<open>The attention of tiny\_addition\_search.py is not causal\<close>

text \<open>
  Weights for a concrete run of width 2 with one block: the query and key projections
  are zero, so every position attends to all 32 positions alike; the value and output
  projections are the identity, and the feed-forward sublayer gives zero. Token \<open>0\<close> is
  embedded as \<open>(0, 0)\<close> and token \<open>1\<close> as \<open>(9/2000, -9/2000)\<close>.
\<close>

definition probe_block :: block_weights where
  "probe_block =
     \<lparr>b_ln1_weight = [1, 1], b_ln1_bias = [0, 0],
      in_proj_weight = [[0, 0], [0, 0], [0, 0], [0, 0], [1, 0], [0, 1]],
      in_proj_bias = [0, 0, 0, 0, 0, 0],
      out_proj_weight = [[1, 0], [0, 1]], out_proj_bias = [0, 0],
      b_ln2_weight = [1, 1], b_ln2_bias = [0, 0],
      ff1_weight = [[0, 0]], ff1_bias = [0],
      ff2_weight = [[0], [0]], ff2_bias = [0, 0]\<rparr>"

definition probe_encoder :: encoder_weights where
  "probe_encoder =
     \<lparr>token_embed = [[0, 0], [9 / 2000, - (9 / 2000)]] @ replicate 10 [0, 0],
      pos_embed = replicate 32 [0, 0],
      blocks = [probe_block],
      final_ln_weight = [1, 1], final_ln_bias = [0, 0],
      head_weight = [[1, 0]] @ replicate 9 [0, 0], head_bias = replicate 10 0\<rparr>"

lemma ln_pair:
  "layer_norm [1, 1] [0, 0] [u, - u] = [u / sqrt (u\<^sup>2 + 1 / 100000), - u / sqrt (u\<^sup>2 + 1 / 100000)]"
  by (simp add: layer_norm_def Let_def power2_eq_square)

lemma ln_zero: "layer_norm [1, 1] [0, 0] [0, 0] = [0, 0]"
  using ln_pair [of 0] by simp

lemma sq: "sqrt (121 / 4000000) = 11 / 2000"
  by (rule real_sqrt_unique) (simp_all add: power2_eq_square)

lemma ln_A: "layer_norm [1, 1] [0, 0] [9 / 2000, - (9 / 2000)] = [9 / 11, - (9 / 11)]"
proof -
  have e: "(9 / 2000 :: real)\<^sup>2 + 1 / 100000 = 121 / 4000000" by (simp add: power2_eq_square)
  have "layer_norm [1, 1] [0, 0] [9 / 2000, - (9 / 2000)]
        = [(9 / 2000) / (11 / 2000), - (9 / 2000) / (11 / 2000)]"
    by (simp only: ln_pair e sq)
  then show ?thesis by simp
qed

lemma uniform_sum:
  fixes u :: real
  shows "length V = n \<Longrightarrow>
    sum_list (map (\<lambda>(w, row). w * row ! c) (zip (replicate n u) V))
    = u * sum_list (map (\<lambda>row. row ! c) V)"
proof (induction V arbitrary: n)
  case Nil
  then show ?case by simp
next
  case (Cons r V)
  then obtain m where "n = Suc m" "length V = m" by (cases n) auto
  with Cons.IH [of m] show ?case by (simp add: algebra_simps)
qed

lemma pair_upt: "[0..<2] = [0, 1]"
  by (simp add: upt_rec)


lemma replicate_snoc: "replicate n z @ [z] = replicate (Suc n) z"
  by (simp add: replicate_append_same)

lemma ncols_replicate: "0 < n \<Longrightarrow> ncols (replicate n r) = length r"
  by (cases n) (simp_all add: ncols_def)

lemma dot_zero2: "dot [0, 0] r = 0"
proof (cases r)
  case Nil
  then show ?thesis by (simp add: dot_def)
next
  case (Cons a t)
  then show ?thesis by (cases t) (simp_all add: dot_def)
qed

text \<open>The attention of the probe block on rows \<open>h\<close>: every output row is the mean of the rows.\<close>

lemma probe_attention:
  assumes "length h = 32" and "\<forall>r \<in> set h. length r = 2"
  shows "self_attention probe_block h
         = replicate 32 [sum_list (map (\<lambda>r. r ! 0) h) / 32, sum_list (map (\<lambda>r. r ! 1) h) / 32]"
proof -
  have "apply_linear [[0, 0], [0, 0]] [0, 0] = (\<lambda>r. [0, 0])"
    by (rule ext) (simp add: apply_linear_def dot_zero2)
  then have q: "map (apply_linear [[0, 0], [0, 0]] [0, 0]) h = replicate 32 [0, 0]"
    using assms(1) by (simp add: map_replicate_const)
  have v: "map (apply_linear [[1, 0], [0, 1]] [0, 0]) h = h"
  proof (rule map_idI)
    fix r assume "r \<in> set h"
    with assms(2) have "length r = 2" by simp
    then obtain a b where "r = [a, b]"
      by (cases r; cases "tl r") auto
    then show "apply_linear [[1, 0], [0, 1]] [0, 0] r = r" by (simp add: apply_linear_def dot_def)
  qed
  have kT: "transpose_m (replicate 32 [0, 0 :: real]) = [replicate 32 0, replicate 32 0]"
    by (simp add: transpose_m_def ncols_replicate pair_upt map_replicate_const)
  have nh: "ncols h = 2" using assms by (cases h) (auto simp: ncols_def)
  have sc: "matmul (replicate 32 [0, 0]) [replicate 32 0, replicate 32 0]
            = replicate 32 (replicate 32 0)"
    by (simp add: matmul_def ncols_def map_replicate_const)
  have sm: "softmax (replicate 32 (Some 0)) = replicate 32 (1 / 32)"
    by (simp add: softmax_def Let_def sum_list_replicate)
  have av: "matmul (replicate 32 (replicate 32 (1 / 32))) h
            = replicate 32 [sum_list (map (\<lambda>r. r ! 0) h) / 32, sum_list (map (\<lambda>r. r ! 1) h) / 32]"
    using assms(1) by (simp add: matmul_def nh pair_upt uniform_sum)
  have op: "apply_linear [[1, 0], [0, 1]] [0, 0] [a, b] = [a, b]" for a b
    by (simp add: apply_linear_def dot_def)
  have d: "length (in_proj_weight probe_block) div 3 = 2" by (simp add: probe_block_def)
  show ?thesis
    unfolding self_attention_def Let_def d
    by (simp add: probe_block_def q v kT sc sm av op)
qed


lemma madd_replicate:
  "madd x (replicate (length x) s) = map (\<lambda>r. map (\<lambda>(a, b). a + b) (zip r s)) x"
  by (induction x) (simp_all add: madd_def)

lemma probe_ff:
  assumes "length r = 2"
  shows "apply_linear [[0], [0]] [0, 0] (map relu (apply_linear [[0, 0]] [0] r)) = [0, 0]"
  by (simp add: apply_linear_def dot_zero2 relu_def dot_def)

text \<open>The probe block adds to every row the mean of the normalised rows.\<close>

lemma probe_block_forward:
  assumes "length x = 32" and "\<forall>r \<in> set x. length r = 2"
  shows "block_forward probe_block x
         = map (\<lambda>r. [r ! 0 + sum_list (map (\<lambda>r. layer_norm [1, 1] [0, 0] r ! 0) x) / 32,
                     r ! 1 + sum_list (map (\<lambda>r. layer_norm [1, 1] [0, 0] r ! 1) x) / 32]) x"
proof -
  let ?n = "map (layer_norm [1, 1] [0, 0]) x"
  let ?m = "[sum_list (map (\<lambda>r. r ! 0) ?n) / 32, sum_list (map (\<lambda>r. r ! 1) ?n) / 32]"
  have ln2: "length (layer_norm [1, 1] [0, 0] r) = 2" if "length r = 2" for r
    using that by (simp add: layer_norm_def Let_def)
  have a: "self_attention probe_block ?n = replicate 32 ?m"
    by (rule probe_attention) (use assms ln2 in auto)
  have x1: "madd x (replicate 32 ?m) = map (\<lambda>r. [r ! 0 + ?m ! 0, r ! 1 + ?m ! 1]) x"
  proof -
    have "madd x (replicate 32 ?m) = map (\<lambda>r. map (\<lambda>(a, b). a + b) (zip r ?m)) x"
      using madd_replicate [of x ?m] assms(1) by simp
    also have "\<dots> = map (\<lambda>r. [r ! 0 + ?m ! 0, r ! 1 + ?m ! 1]) x"
    proof (rule map_cong [OF refl])
      fix r assume "r \<in> set x"
      with assms(2) have "length r = 2" by simp
      then obtain p q where "r = [p, q]" by (cases r; cases "tl r") auto
      then show "map (\<lambda>(a, b). a + b) (zip r ?m) = [r ! 0 + ?m ! 0, r ! 1 + ?m ! 1]" by simp
    qed
    finally show ?thesis .
  qed
  let ?y = "map (\<lambda>r. [r ! 0 + ?m ! 0, r ! 1 + ?m ! 1]) x"
  have ff: "map (apply_linear [[0], [0]] [0, 0])
              (map (map relu) (map (apply_linear [[0, 0]] [0]) (map (layer_norm [1, 1] [0, 0]) ?y)))
            = replicate 32 [0, 0]"
    using assms(1) by (simp add: o_def probe_ff ln2 map_replicate_const)
  have y0: "madd ?y (replicate 32 [0, 0]) = ?y"
    using madd_replicate [of ?y "[0, 0]"] assms(1) by (simp add: o_def)
  have f: "b_ln1_weight probe_block = [1, 1]" "b_ln1_bias probe_block = [0, 0]"
    "b_ln2_weight probe_block = [1, 1]" "b_ln2_bias probe_block = [0, 0]"
    "ff1_weight probe_block = [[0, 0]]" "ff1_bias probe_block = [0]"
    "ff2_weight probe_block = [[0], [0]]" "ff2_bias probe_block = [0, 0]"
    by (simp_all add: probe_block_def)
  have "block_forward probe_block x = ?y"
    unfolding block_forward_def Let_def
    by (simp only: f a x1 ff y0)
  then show ?thesis by (simp add: o_def)
qed


lemma probe_head:
  assumes "length v = 2"
  shows "apply_linear ([1, 0] # replicate 9 [0, 0]) (replicate 10 0) v ! 0 = v ! 0"
proof -
  from assms obtain p q where "v = [p, q]" by (cases v; cases "tl v") auto
  then show ?thesis by (simp add: apply_linear_def dot_def)
qed

text \<open>
  The logits of the probe encoder at position 0, from the token rows \<open>te\<close>: the first one
  is the first entry of the normalised sum of row 0 and the mean of the normalised rows.
\<close>

lemma probe_encoder_forward:
  assumes "length x = 32" and "\<forall>t \<in> set x. t < 2"
  defines "te \<equiv> map (\<lambda>t. ([[0, 0], [9 / 2000, - (9 / 2000)]] :: mat) ! t) x"
  defines "m \<equiv> sum_list (map (\<lambda>r. layer_norm [1, 1] [0, 0] r ! 0) te) / 32"
  defines "m' \<equiv> sum_list (map (\<lambda>r. layer_norm [1, 1] [0, 0] r ! 1) te) / 32"
  shows "\<not> isl (encoder_forward probe_encoder x)"
    and "projr (encoder_forward probe_encoder x) ! 0 ! 0
         = layer_norm [1, 1] [0, 0] [te ! 0 ! 0 + m, te ! 0 ! 1 + m'] ! 0"
proof -
  have rows: "\<forall>r \<in> set te. length r = 2"
    using assms(2) by (auto simp: te_def less_Suc_eq numeral_2_eq_2)
  have lte: "length te = 32" using assms(1) by (simp add: te_def)
  have "\<forall>t \<in> set x. t < length (token_embed probe_encoder)"
    using assms(2) by (auto simp: probe_encoder_def)
  moreover have "map (\<lambda>t. token_embed probe_encoder ! t) x = te"
    unfolding te_def
  proof (rule map_cong [OF refl])
    fix t assume "t \<in> set x"
    with assms(2) have "t = 0 \<or> t = 1" by force
    then show "token_embed probe_encoder ! t = [[0, 0], [9 / 2000, - (9 / 2000)]] ! t"
      by (auto simp: probe_encoder_def)
  qed
  ultimately have e: "embedding (token_embed probe_encoder) x = Inr te"
    by (simp add: embedding_def)
  have "map (\<lambda>p. replicate 32 [0, 0 :: real] ! p) [0..<32] = replicate 32 [0, 0]"
    using map_nth [of "replicate 32 [0, 0 :: real]"] by simp
  then have pe: "embedding (pos_embed probe_encoder) [0..<32] = Inr (replicate 32 [0, 0])"
    by (simp add: embedding_def probe_encoder_def)
  have h0: "madd te (replicate 32 [0, 0]) = te"
  proof -
    have "madd te (replicate 32 [0, 0]) = map (\<lambda>r. map (\<lambda>(a, b). a + b) (zip r [0, 0])) te"
      using madd_replicate [of te "[0, 0]"] lte by simp
    also have "\<dots> = te"
    proof (rule map_idI)
      fix r assume "r \<in> set te"
      with rows have "length r = 2" by simp
      then obtain p q where "r = [p, q]" by (cases r; cases "tl r") auto
      then show "map (\<lambda>(a, b). a + b) (zip r [0, 0]) = r" by simp
    qed
    finally show ?thesis .
  qed
  have b: "block_forward probe_block te = map (\<lambda>r. [r ! 0 + m, r ! 1 + m']) te"
    unfolding m_def m'_def using lte rows by (rule probe_block_forward)
  have f: "blocks probe_encoder = [probe_block]" "final_ln_weight probe_encoder = [1, 1]"
    "final_ln_bias probe_encoder = [0, 0]"
    "head_weight probe_encoder = [[1, 0]] @ replicate 9 [0, 0]"
    "head_bias probe_encoder = replicate 10 0"
    by (simp_all add: probe_encoder_def)
  have out: "encoder_forward probe_encoder x
      = Inr (map (apply_linear ([[1, 0]] @ replicate 9 [0, 0]) (replicate 10 0))
               (map (layer_norm [1, 1] [0, 0]) (take 11 (map (\<lambda>r. [r ! 0 + m, r ! 1 + m']) te))))"
    unfolding encoder_forward_def Let_def
    using assms(1) by (simp only: e pe f h0 b foldl.simps sum.case if_False simp_thms)
  show "\<not> isl (encoder_forward probe_encoder x)" by (simp add: out)
  have l2: "length (layer_norm [1, 1] [0, 0] [p, q]) = 2" for p q
    by (simp add: layer_norm_def Let_def)
  show "projr (encoder_forward probe_encoder x) ! 0 ! 0
         = layer_norm [1, 1] [0, 0] [te ! 0 ! 0 + m, te ! 0 ! 1 + m'] ! 0"
    unfolding out using lte
    by (simp add: nth_take probe_head l2)
qed


text \<open>
  Claim C4, as stated, fails on tiny\_addition\_search.py, whose attention has no mask.
  With the probe weights, the first logit at position 0 is \<open>0\<close> for 32 tokens \<open>0\<close>, and
  is positive once the token at position 31 is replaced by the token \<open>1\<close>.
\<close>

theorem encoder_not_causal:
  "\<not> isl (encoder_forward probe_encoder (replicate 32 0))
   \<and> projr (encoder_forward probe_encoder (replicate 32 0)) ! 0 ! 0 = 0
   \<and> \<not> isl (encoder_forward probe_encoder (replicate 31 0 @ [1]))
   \<and> projr (encoder_forward probe_encoder (replicate 31 0 @ [1])) ! 0 ! 0 > 0"
proof -
  let ?E = "[[0, 0], [9 / 2000, - (9 / 2000)]] :: mat"
  have t0: "map (\<lambda>t. ?E ! t) (replicate 32 0) = replicate 32 [0, 0]" by simp
  have t1: "map (\<lambda>t. ?E ! t) (replicate 31 0 @ [1]) = replicate 31 [0, 0] @ [[9 / 2000, - (9 / 2000)]]"
    by simp
  note z = probe_encoder_forward [of "replicate 32 0", unfolded t0]
  have "projr (encoder_forward probe_encoder (replicate 32 0)) ! 0 ! 0
        = layer_norm [1, 1] [0, 0] [0, 0] ! 0"
    by (subst z(2)) (simp_all add: o_def ln_zero sum_list_replicate)
  then have v0: "projr (encoder_forward probe_encoder (replicate 32 0)) ! 0 ! 0 = 0"
    by (simp add: ln_zero)
  have i0: "\<not> isl (encoder_forward probe_encoder (replicate 32 0))"
    by (rule z(1)) simp_all
  note o = probe_encoder_forward [of "replicate 31 0 @ [1]", unfolded t1]
  have "projr (encoder_forward probe_encoder (replicate 31 0 @ [1])) ! 0 ! 0
        = layer_norm [1, 1] [0, 0] [9 / 352, - (9 / 352)] ! 0"
    by (subst o(2)) (simp_all add: o_def ln_zero ln_A sum_list_replicate nth_append)
  also have "\<dots> = (9 / 352) / sqrt ((9 / 352)\<^sup>2 + 1 / 100000)"
    by (simp only: ln_pair nth_Cons_0)
  also have "\<dots> > 0" by (simp add: real_sqrt_gt_zero add_pos_nonneg)
  finally have v1: "projr (encoder_forward probe_encoder (replicate 31 0 @ [1])) ! 0 ! 0 > 0" .
  have i1: "\<not> isl (encoder_forward probe_encoder (replicate 31 0 @ [1]))"
    by (rule o(1)) (simp_all add: less_Suc_eq)
  from i0 v0 i1 v1 show ?thesis by blast
qed

end
